theory Spec2Isabelle
  imports Complex_Main "HOL-Library.Product_Lexorder" "HOL-Library.Multiset"
begin

section \<open>Data model (app/models/schema.py and the tables of app/models/database.py)\<close>

text \<open>
  Python floats (edge weights, extraction scores, latencies) are modelled as reals, Python
  ints as \<open>int\<close>. A UUID drawn by \<open>uuid.uuid4()\<close> is modelled as the next value of a
  supply of fresh identifiers kept with the store. The timestamp columns
  (\<open>created_at\<close>, \<open>updated_at\<close>, \<open>last_traversed\<close>, \<open>timestamp\<close>) are written by the
  code and never read by any operation modelled here; they are left out.
\<close>

type_synonym uuid = nat

datatype json = JNull | JStr string | JInt int | JReal real | JId uuid | JList "json list"

type_synonym metadata = "(string \<times> json) list"

record node =
  n_id :: uuid
  n_name :: string
  n_entity_type :: string
  n_content :: "string option"
  n_metadata :: metadata
  n_access_count :: int

record edge =
  e_id :: uuid
  e_source_id :: uuid
  e_target_id :: uuid
  e_relation_type :: string
  e_weight :: real
  e_metadata :: metadata
  e_traversal_count :: int

record schema_type =
  st_name :: string
  st_count :: int
  st_is_seed :: bool
  st_evolved_from :: "string option"

record adaptation_event =
  ev_event_type :: string
  ev_description :: string
  ev_details :: metadata

record metrics =
  total_queries :: int
  llm_calls :: int
  total_latency_ms :: real

text \<open>
  The SQLite store: one list per table, rows in insertion order. The \<open>metrics\<close> table
  holds the single row with \<open>id = 1\<close> that \<open>_init_schema\<close> inserts.
\<close>

record database =
  tbl_nodes :: "node list"
  tbl_edges :: "edge list"
  tbl_schema_types :: "schema_type list"
  tbl_adaptation_events :: "adaptation_event list"
  tbl_metrics :: metrics
  uuid_supply :: uuid

section \<open>The store (app/models/database.py)\<close>

definition schema_type_names :: "database \<Rightarrow> string list" where
  "schema_type_names db = map st_name (tbl_schema_types db)"

definition lookup_schema_type :: "database \<Rightarrow> string \<Rightarrow> schema_type option" where
  "lookup_schema_type db t = find (\<lambda>r. st_name r = t) (tbl_schema_types db)"

definition seed_types :: "string list" where
  "seed_types = [''note'', ''person'', ''place'', ''thing'']"

text \<open>\<open>INSERT OR IGNORE INTO schema_types\<close>: the primary key \<open>name\<close> decides.\<close>

definition insert_or_ignore_schema_type :: "schema_type \<Rightarrow> schema_type list \<Rightarrow> schema_type list" where
  "insert_or_ignore_schema_type r rows =
     (if st_name r \<in> set (map st_name rows) then rows else rows @ [r])"

definition empty_metrics :: metrics where
  "empty_metrics = \<lparr>total_queries = 0, llm_calls = 0, total_latency_ms = 0\<rparr>"

definition empty_database :: database where
  "empty_database =
     \<lparr>tbl_nodes = [], tbl_edges = [], tbl_schema_types = [], tbl_adaptation_events = [],
      tbl_metrics = empty_metrics, uuid_supply = 0\<rparr>"

definition init_schema :: "database \<Rightarrow> database" where
  "init_schema db =
     db\<lparr>tbl_schema_types :=
          foldl (\<lambda>rows t. insert_or_ignore_schema_type
                   \<lparr>st_name = t, st_count = 0, st_is_seed = True, st_evolved_from = None\<rparr> rows)
                (tbl_schema_types db) seed_types\<rparr>"

definition new_database :: database where
  "new_database = init_schema empty_database"

text \<open>
  \<open>INSERT INTO schema_types ... ON CONFLICT(name) DO UPDATE SET count = count + 1\<close>,
  the second statement of \<open>create_node\<close>.
\<close>

definition upsert_schema_type :: "string \<Rightarrow> schema_type list \<Rightarrow> schema_type list" where
  "upsert_schema_type t rows =
     (if t \<in> set (map st_name rows)
      then map (\<lambda>r. if st_name r = t then r\<lparr>st_count := st_count r + 1\<rparr> else r) rows
      else rows @ [\<lparr>st_name = t, st_count = 1, st_is_seed = False, st_evolved_from = None\<rparr>])"

definition create_node ::
  "database \<Rightarrow> string \<Rightarrow> string \<Rightarrow> string option \<Rightarrow> metadata \<Rightarrow> database \<times> node" where
  "create_node db name entity_type content meta =
     (let nd = \<lparr>n_id = uuid_supply db, n_name = name, n_entity_type = entity_type,
                n_content = content, n_metadata = meta, n_access_count = 0\<rparr>
      in (db\<lparr>tbl_nodes := tbl_nodes db @ [nd],
             tbl_schema_types := upsert_schema_type entity_type (tbl_schema_types db),
             uuid_supply := Suc (uuid_supply db)\<rparr>, nd))"

definition get_node :: "database \<Rightarrow> uuid \<Rightarrow> node option" where
  "get_node db i = find (\<lambda>n. n_id n = i) (tbl_nodes db)"

definition get_all_nodes :: "database \<Rightarrow> node list" where
  "get_all_nodes db = tbl_nodes db"

definition update_node_access :: "database \<Rightarrow> uuid \<Rightarrow> database" where
  "update_node_access db i =
     db\<lparr>tbl_nodes := map (\<lambda>n. if n_id n = i then n\<lparr>n_access_count := n_access_count n + 1\<rparr> else n)
                          (tbl_nodes db)\<rparr>"

text \<open>SQLite's built-in \<open>LOWER\<close> folds the ASCII letters only.\<close>

definition sql_lower_char :: "char \<Rightarrow> char" where
  "sql_lower_char c =
     (if (65::nat) \<le> of_char c \<and> (of_char c :: nat) \<le> 90
      then char_of ((of_char c :: nat) + 32) else c)"

definition sql_lower :: "string \<Rightarrow> string" where
  "sql_lower s = map sql_lower_char s"

text \<open>
  \<open>find_node_by_name\<close>: \<open>if entity_type:\<close> is false for \<open>None\<close> and for the empty string;
  \<open>fetchone\<close> takes the first matching row.
\<close>

definition find_node_by_name :: "database \<Rightarrow> string \<Rightarrow> string option \<Rightarrow> node option" where
  "find_node_by_name db name entity_type =
     (case entity_type of
        Some t \<Rightarrow>
          (if t \<noteq> []
           then find (\<lambda>n. sql_lower (n_name n) = sql_lower name \<and> n_entity_type n = t) (tbl_nodes db)
           else find (\<lambda>n. sql_lower (n_name n) = sql_lower name) (tbl_nodes db))
      | None \<Rightarrow> find (\<lambda>n. sql_lower (n_name n) = sql_lower name) (tbl_nodes db))"

definition create_edge ::
  "database \<Rightarrow> uuid \<Rightarrow> uuid \<Rightarrow> string \<Rightarrow> real \<Rightarrow> metadata \<Rightarrow> database \<times> edge" where
  "create_edge db source_id target_id relation_type weight meta =
     (let ed = \<lparr>e_id = uuid_supply db, e_source_id = source_id, e_target_id = target_id,
                e_relation_type = relation_type, e_weight = weight, e_metadata = meta,
                e_traversal_count = 0\<rparr>
      in (db\<lparr>tbl_edges := tbl_edges db @ [ed], uuid_supply := Suc (uuid_supply db)\<rparr>, ed))"

definition get_edges_for_node :: "database \<Rightarrow> uuid \<Rightarrow> edge list" where
  "get_edges_for_node db i = filter (\<lambda>e. e_source_id e = i \<or> e_target_id e = i) (tbl_edges db)"

definition get_all_edges :: "database \<Rightarrow> edge list" where
  "get_all_edges db = tbl_edges db"

definition find_edge :: "database \<Rightarrow> uuid \<Rightarrow> uuid \<Rightarrow> edge option" where
  "find_edge db source_id target_id =
     find (\<lambda>e. (e_source_id e = source_id \<and> e_target_id e = target_id) \<or>
               (e_source_id e = target_id \<and> e_target_id e = source_id)) (tbl_edges db)"

definition boost_edge :: "database \<Rightarrow> uuid \<Rightarrow> real \<Rightarrow> database" where
  "boost_edge db edge_id boost_amount =
     db\<lparr>tbl_edges :=
          map (\<lambda>e. if e_id e = edge_id
                   then e\<lparr>e_weight := min (e_weight e + boost_amount) 10,
                          e_traversal_count := e_traversal_count e + 1\<rparr>
                   else e) (tbl_edges db)\<rparr>"

definition decay_edges :: "database \<Rightarrow> real \<Rightarrow> database" where
  "decay_edges db decay_factor =
     db\<lparr>tbl_edges := map (\<lambda>e. e\<lparr>e_weight := max (e_weight e * decay_factor) (1/10)\<rparr>) (tbl_edges db)\<rparr>"

text \<open>
  \<open>get_schema_types\<close>: \<open>ORDER BY count DESC\<close>; rows of equal count are kept in table
  order here (SQLite leaves their order open, and the callers read only names and counts).
\<close>

definition get_schema_types :: "database \<Rightarrow> schema_type list" where
  "get_schema_types db = sort_key (\<lambda>r. - st_count r) (tbl_schema_types db)"

definition log_adaptation :: "database \<Rightarrow> string \<Rightarrow> string \<Rightarrow> metadata \<Rightarrow> database" where
  "log_adaptation db event_type description details =
     db\<lparr>tbl_adaptation_events := tbl_adaptation_events db @
          [\<lparr>ev_event_type = event_type, ev_description = description, ev_details = details\<rparr>]\<rparr>"

definition opt_json :: "string option \<Rightarrow> json" where
  "opt_json s = (case s of None \<Rightarrow> JNull | Some t \<Rightarrow> JStr t)"

text \<open>
  \<open>create_schema_type\<close>: \<open>INSERT OR IGNORE\<close>, then a \<open>type_created\<close> event whether or not
  a row was inserted. The suffix of the description is added \<open>if evolved_from\<close>, that is for
  a non-empty string.
\<close>

definition create_schema_type :: "database \<Rightarrow> string \<Rightarrow> string option \<Rightarrow> database" where
  "create_schema_type db name evolved_from =
     log_adaptation
       (db\<lparr>tbl_schema_types := insert_or_ignore_schema_type
              \<lparr>st_name = name, st_count = 0, st_is_seed = False, st_evolved_from = evolved_from\<rparr>
              (tbl_schema_types db)\<rparr>)
       ''type_created''
       (''New entity type '' @ [CHR 0x27] @ name @ [CHR 0x27] @ '' created'' @
          (case evolved_from of
             None \<Rightarrow> []
           | Some p \<Rightarrow> if p = [] then [] else '' (evolved from '' @ p @ '')''))
       [(''type_name'', JStr name), (''evolved_from'', opt_json evolved_from)]"

definition record_query :: "database \<Rightarrow> real \<Rightarrow> bool \<Rightarrow> database" where
  "record_query db latency_ms used_llm =
     db\<lparr>tbl_metrics :=
          \<lparr>total_queries = total_queries (tbl_metrics db) + 1,
           llm_calls = llm_calls (tbl_metrics db) + (if used_llm then 1 else 0),
           total_latency_ms = total_latency_ms (tbl_metrics db) + latency_ms\<rparr>\<rparr>"

text \<open>\<open>clear_all\<close>, one update per SQL statement, in the order of the source.\<close>

definition clear_all :: "database \<Rightarrow> database" where
  "clear_all db =
     (let db1 = db\<lparr>tbl_edges := []\<rparr>;
          db2 = db1\<lparr>tbl_nodes := []\<rparr>;
          db3 = db2\<lparr>tbl_adaptation_events := []\<rparr>;
          db4 = db3\<lparr>tbl_schema_types :=
                  map (\<lambda>r. if st_is_seed r then r\<lparr>st_count := 0\<rparr> else r) (tbl_schema_types db3)\<rparr>;
          db5 = db4\<lparr>tbl_schema_types := filter (\<lambda>r. st_is_seed r) (tbl_schema_types db4)\<rparr>
      in db5\<lparr>tbl_metrics := \<lparr>total_queries = 0, llm_calls = 0, total_latency_ms = 0\<rparr>\<rparr>)"

text \<open>The \<open>UPDATE edges SET weight = 0.1 WHERE id = ?\<close> that \<open>reject_edge\<close> issues itself.\<close>

definition set_edge_weight_floor :: "database \<Rightarrow> uuid \<Rightarrow> database" where
  "set_edge_weight_floor db edge_id =
     db\<lparr>tbl_edges := map (\<lambda>e. if e_id e = edge_id then e\<lparr>e_weight := 1/10\<rparr> else e) (tbl_edges db)\<rparr>"

text \<open>
  Every statement the code sends to the store, as one operation each; \<open>run_ops\<close> runs a
  sequence of them.
\<close>

datatype db_op =
    CreateNode string string "string option" metadata
  | UpdateNodeAccess uuid
  | CreateEdge uuid uuid string real metadata
  | BoostEdge uuid real
  | DecayEdges real
  | CreateSchemaType string "string option"
  | LogAdaptation string string metadata
  | RecordQuery real bool
  | ClearAll
  | SetEdgeWeightFloor uuid

fun run_op :: "database \<Rightarrow> db_op \<Rightarrow> database" where
  "run_op db (CreateNode name entity_type content meta) =
     fst (create_node db name entity_type content meta)"
| "run_op db (UpdateNodeAccess i) = update_node_access db i"
| "run_op db (CreateEdge s t r w meta) = fst (create_edge db s t r w meta)"
| "run_op db (BoostEdge i a) = boost_edge db i a"
| "run_op db (DecayEdges f) = decay_edges db f"
| "run_op db (CreateSchemaType name evolved_from) = create_schema_type db name evolved_from"
| "run_op db (LogAdaptation t d details) = log_adaptation db t d details"
| "run_op db (RecordQuery l u) = record_query db l u"
| "run_op db ClearAll = clear_all db"
| "run_op db (SetEdgeWeightFloor i) = set_edge_weight_floor db i"

definition run_ops :: "database \<Rightarrow> db_op list \<Rightarrow> database" where
  "run_ops db ops = foldl run_op db ops"

subsection \<open>Predicates on the store\<close>

definition weight_in_range :: "real \<Rightarrow> bool" where
  "weight_in_range w = (1/10 \<le> w \<and> w \<le> 10)"

definition weights_in_range :: "database \<Rightarrow> bool" where
  "weights_in_range db = list_all (\<lambda>e. weight_in_range (e_weight e)) (tbl_edges db)"

definition types_registered :: "database \<Rightarrow> bool" where
  "types_registered db =
     list_all (\<lambda>n. n_entity_type n \<in> set (schema_type_names db)) (tbl_nodes db)"

definition seed_row :: "string \<Rightarrow> int \<Rightarrow> schema_type" where
  "seed_row t c = \<lparr>st_name = t, st_count = c, st_is_seed = True, st_evolved_from = None\<rparr>"

definition seed_rows_present :: "database \<Rightarrow> bool" where
  "seed_rows_present db =
     list_all (\<lambda>t. case lookup_schema_type db t of
                      None \<Rightarrow> False
                    | Some r \<Rightarrow> st_is_seed r \<and> st_evolved_from r = None) seed_types"

text \<open>A store with one edge of weight 0.5 and one of weight 10, used in the examples.\<close>

definition two_edge_db :: database where
  "two_edge_db =
     fst (create_edge (fst (create_edge new_database 0 1 ''mentions'' (1/2) [])) 1 2 ''co_occurs'' 10 [])"

definition seed_ok :: "schema_type list \<Rightarrow> string \<Rightarrow> bool" where
  "seed_ok rows t = (case find (\<lambda>r. st_name r = t) rows of
                       None \<Rightarrow> False
                     | Some r \<Rightarrow> st_is_seed r \<and> st_evolved_from r = None)"

text \<open>A sequence of operations used in the examples: three nodes, an edge, a promoted type, a query.\<close>

definition busy_ops :: "db_op list" where
  "busy_ops =
     [CreateNode ''Trip'' ''note'' (Some ''Trip to Oslo'') [],
      CreateNode ''Oslo'' ''place'' None [],
      CreateNode ''graphs'' ''concept'' None [],
      CreateEdge 0 1 ''mentions'' (4/5) [],
      CreateSchemaType ''project'' None,
      RecordQuery 12 True]"

section \<open>Entity extraction (app/services/entities.py)\<close>

record extracted_entity =
  ent_text :: string
  ent_label :: string
  ent_start :: int
  ent_end :: int
  ent_score :: real

text \<open>
  \<open>sorted(entities, key=lambda e: (e.start, -e.score))\<close>: Python's sort is stable and
  compares the key tuples lexicographically, as \<open>sort_key\<close> does on pairs.
\<close>

definition sort_entities :: "extracted_entity list \<Rightarrow> extracted_entity list" where
  "sort_entities entities = sort_key (\<lambda>e. (ent_start e, - ent_score e)) entities"

text \<open>The \<open>for\<close> loop of \<open>merge_overlapping\<close>, on its two variables \<open>merged\<close> and \<open>current\<close>.\<close>

fun merge_loop ::
  "extracted_entity list \<Rightarrow> extracted_entity \<Rightarrow> extracted_entity list \<Rightarrow>
   extracted_entity list \<times> extracted_entity" where
  "merge_loop merged current [] = (merged, current)"
| "merge_loop merged current (ent # rest) =
     (if ent_start ent < ent_end current
      then (if ent_score ent > ent_score current
            then merge_loop merged ent rest
            else merge_loop merged current rest)
      else merge_loop (merged @ [current]) ent rest)"

definition merge_overlapping :: "extracted_entity list \<Rightarrow> extracted_entity list" where
  "merge_overlapping entities =
     (if entities = [] then []
      else (case sort_entities entities of
              [] \<Rightarrow> []
            | current # rest \<Rightarrow>
                (case merge_loop [] current rest of (merged, cur) \<Rightarrow> merged @ [cur])))"

text \<open>
  The sweep as the specification words it: a candidate overlaps the current span when it
  starts strictly before the current span ends; of two overlapping spans the one with the
  higher score is kept (the current one when the scores are equal); otherwise the current
  span is emitted and the candidate becomes current.
\<close>

definition overlaps_current :: "extracted_entity \<Rightarrow> extracted_entity \<Rightarrow> bool" where
  "overlaps_current candidate current = (ent_start candidate < ent_end current)"

definition higher_scoring :: "extracted_entity \<Rightarrow> extracted_entity \<Rightarrow> extracted_entity" where
  "higher_scoring current candidate =
     (if ent_score current < ent_score candidate then candidate else current)"

fun sweep_spec :: "extracted_entity \<Rightarrow> extracted_entity list \<Rightarrow> extracted_entity list" where
  "sweep_spec current [] = [current]"
| "sweep_spec current (candidate # rest) =
     (if overlaps_current candidate current
      then sweep_spec (higher_scoring current candidate) rest
      else current # sweep_spec candidate rest)"

definition merge_overlapping_spec :: "extracted_entity list \<Rightarrow> extracted_entity list" where
  "merge_overlapping_spec entities =
     (case sort_entities entities of [] \<Rightarrow> [] | first # rest \<Rightarrow> sweep_spec first rest)"

definition span :: "int \<Rightarrow> int \<Rightarrow> real \<Rightarrow> string \<Rightarrow> string \<Rightarrow> extracted_entity" where
  "span s e sc txt lbl =
     \<lparr>ent_text = txt, ent_label = lbl, ent_start = s, ent_end = e, ent_score = sc\<rparr>"

text \<open>
  Python's \<open>str.lower\<close> and \<open>str.split\<close>, on ASCII text: the letters A to Z are folded,
  and the separators are the ASCII whitespace characters (tab, line feed, vertical tab,
  form feed, carriage return, the four separators 28 to 31, and space).
\<close>

definition py_lower :: "string \<Rightarrow> string" where
  "py_lower s = map sql_lower_char s"

definition py_isspace :: "char \<Rightarrow> bool" where
  "py_isspace c = ((of_char c :: nat) \<in> {9, 10, 11, 12, 13, 28, 29, 30, 31, 32})"

fun split_loop :: "string \<Rightarrow> string \<Rightarrow> string list" where
  "split_loop word [] = (if word = [] then [] else [word])"
| "split_loop word (c # cs) =
     (if py_isspace c
      then (if word = [] then split_loop [] cs else word # split_loop [] cs)
      else split_loop (word @ [c]) cs)"

definition py_split :: "string \<Rightarrow> string list" where
  "py_split s = split_loop [] s"

fun py_join :: "string \<Rightarrow> string list \<Rightarrow> string" where
  "py_join sep [] = []"
| "py_join sep [w] = w"
| "py_join sep (w # ws) = w @ sep @ py_join sep ws"

definition py_strip :: "string \<Rightarrow> string" where
  "py_strip s = rev (dropWhile py_isspace (rev (dropWhile py_isspace s)))"

definition normalize_entity_text :: "string \<Rightarrow> string" where
  "normalize_entity_text txt = py_join '' '' (py_split (py_lower txt))"

text \<open>\<open>needle in haystack\<close> on strings.\<close>

fun str_contains :: "string \<Rightarrow> string \<Rightarrow> bool" where
  "str_contains needle [] = (needle = [])"
| "str_contains needle (c # cs) =
     (take (length needle) (c # cs) = needle \<or> str_contains needle cs)"

definition DEFAULT_LABELS :: "string list" where
  "DEFAULT_LABELS = [''person'', ''organization'', ''location'', ''concept'',
                     ''project'', ''technology'', ''date'', ''event'']"

text \<open>\<open>[x for x in labels if not (x in seen or seen.add(x))]\<close>: the first occurrences, in order.\<close>

fun dedup_first :: "'a list \<Rightarrow> 'a list \<Rightarrow> 'a list" where
  "dedup_first seen [] = []"
| "dedup_first seen (x # xs) =
     (if x \<in> set seen then dedup_first seen xs else x # dedup_first (seen @ [x]) xs)"

text \<open>
  The services outside the repository's own code: the GLiNER model behind
  \<open>EntityExtractor.extract\<close>, the embedding model and vector index behind
  \<open>EmbeddingService\<close>, and the Ollama client behind \<open>LLMService\<close>. They are parameters
  of the model; each is taken to return a value (a call that raises is not modelled).
\<close>

type_synonym collection = "(uuid \<times> string \<times> metadata) list"

record search_hit =
  hit_id :: uuid
  hit_similarity :: real

record context_node =
  cn_name :: string
  cn_entity_type :: string
  cn_content :: string

record context_edge =
  ce_source_name :: string
  ce_target_name :: string
  ce_relation_type :: string

record collaborators =
  predict_entities :: "string \<Rightarrow> string list \<Rightarrow> real \<Rightarrow> extracted_entity list"
  embeddings_search :: "collection \<Rightarrow> string \<Rightarrow> int \<Rightarrow> search_hit list"
  get_similar_nodes :: "collection \<Rightarrow> uuid \<Rightarrow> int \<Rightarrow> search_hit list"
  compute_similarity :: "string \<Rightarrow> string \<Rightarrow> real"
  llm_is_available :: bool
  llm_generate_response :: "string \<Rightarrow> context_node list \<Rightarrow> context_edge list \<Rightarrow> string"

text \<open>
  \<open>EntityExtractor.extract\<close> (named \<open>extract_entities\<close> here):
  \<open>labels or self.DEFAULT_LABELS\<close>, then the model.
\<close>

definition extract_entities ::
  "collaborators \<Rightarrow> string \<Rightarrow> string list option \<Rightarrow> real \<Rightarrow> extracted_entity list" where
  "extract_entities co txt labels threshold =
     predict_entities co txt
       (case labels of None \<Rightarrow> DEFAULT_LABELS | Some ls \<Rightarrow> if ls = [] then DEFAULT_LABELS else ls)
       threshold"

definition any_contained :: "string list \<Rightarrow> string \<Rightarrow> bool" where
  "any_contained ws s = list_ex (\<lambda>w. str_contains w s) ws"

definition extract_with_context ::
  "collaborators \<Rightarrow> string \<Rightarrow> string option \<Rightarrow> real \<Rightarrow> extracted_entity list" where
  "extract_with_context co txt query_context threshold =
     (let labels =
        (case query_context of
           None \<Rightarrow> DEFAULT_LABELS
         | Some q \<Rightarrow>
             if q = [] then DEFAULT_LABELS
             else (let query_lower = py_lower q;
                       ls = (if any_contained [''who'', ''person'', ''people''] query_lower
                             then [''person'', ''organization''] @ DEFAULT_LABELS
                             else if any_contained [''where'', ''place'', ''location''] query_lower
                             then [''location'', ''organization''] @ DEFAULT_LABELS
                             else if any_contained [''when'', ''date'', ''time''] query_lower
                             then [''date'', ''event''] @ DEFAULT_LABELS
                             else DEFAULT_LABELS)
                   in dedup_first [] ls))
      in extract_entities co txt (Some labels) threshold)"

definition extract_clean ::
  "collaborators \<Rightarrow> string \<Rightarrow> string list option \<Rightarrow> real \<Rightarrow> extracted_entity list" where
  "extract_clean co txt labels threshold = merge_overlapping (extract_entities co txt labels threshold)"

section \<open>The graph service (app/services/graph.py)\<close>

record Note =
  note_content :: string
  note_title :: "string option"
  note_tags :: "string list"

record query_result =
  qr_nodes :: "node list"
  qr_edges :: "edge list"
  qr_traversed_path :: "uuid list"
  qr_response :: "string option"
  qr_latency_ms :: real
  qr_used_llm :: bool

text \<open>
  The state of a \<open>GraphService\<close>: its store, the collection of its embedding service (ids,
  documents and metadata; the vectors are the embedding model's) and the in-memory
  \<open>Counter\<close> \<open>_type_counts\<close>.
\<close>

record graph_service =
  gs_db :: database
  gs_collection :: collection
  gs_type_counts :: "(string \<times> int) list"

definition SIMILARITY_THRESHOLD :: real where
  "SIMILARITY_THRESHOLD = 7/10"

definition TYPE_PROMOTION_THRESHOLD :: int where
  "TYPE_PROMOTION_THRESHOLD = 5"

text \<open>
  A \<open>collections.Counter\<close>: an association list in the order in which keys were first
  set; a missing key reads 0.
\<close>

definition counter_get :: "('k \<times> int) list \<Rightarrow> 'k \<Rightarrow> int" where
  "counter_get c k = (case map_of c k of None \<Rightarrow> 0 | Some v \<Rightarrow> v)"

fun counter_set :: "('k \<times> int) list \<Rightarrow> 'k \<Rightarrow> int \<Rightarrow> ('k \<times> int) list" where
  "counter_set [] k v = [(k, v)]"
| "counter_set ((k', v') # c) k v =
     (if k' = k then (k, v) # c else (k', v') # counter_set c k v)"

definition counter_add :: "('k \<times> int) list \<Rightarrow> 'k \<Rightarrow> int \<Rightarrow> ('k \<times> int) list" where
  "counter_add c k n = counter_set c k (counter_get c k + n)"

definition Counter :: "'k list \<Rightarrow> ('k \<times> int) list" where
  "Counter xs = foldl (\<lambda>c x. counter_add c x 1) [] xs"

text \<open>\<open>str\<close> of a non-negative integer, for the descriptions of adaptation events.\<close>

fun digits_fuel :: "nat \<Rightarrow> nat \<Rightarrow> string" where
  "digits_fuel 0 n = []"
| "digits_fuel (Suc f) n =
     (if n < 10 then [char_of (48 + n)] else digits_fuel f (n div 10) @ [char_of (48 + n mod 10)])"

definition str_of_nat :: "nat \<Rightarrow> string" where
  "str_of_nat n = digits_fuel (Suc n) n"

definition str_of_int :: "int \<Rightarrow> string" where
  "str_of_int i = (if i < 0 then CHR ''-'' # str_of_nat (nat (- i)) else str_of_nat (nat i))"

definition embeddings_add_node :: "collection \<Rightarrow> uuid \<Rightarrow> string \<Rightarrow> metadata \<Rightarrow> collection" where
  "embeddings_add_node coll node_id txt meta = coll @ [(node_id, txt, meta)]"

definition refresh_type_counts :: "graph_service \<Rightarrow> graph_service" where
  "refresh_type_counts gs =
     gs\<lparr>gs_type_counts :=
          foldl (\<lambda>c r. counter_set c (st_name r) (st_count r)) (gs_type_counts gs)
                (get_schema_types (gs_db gs))\<rparr>"

text \<open>\<open>GraphService.__init__\<close> over a store and a collection found on disk.\<close>

definition open_graph_service :: "database \<Rightarrow> collection \<Rightarrow> graph_service" where
  "open_graph_service db coll =
     refresh_type_counts \<lparr>gs_db = init_schema db, gs_collection = coll, gs_type_counts = []\<rparr>"

definition type_mapping :: "(string \<times> string) list" where
  "type_mapping =
     [(''person'', ''person''), (''organization'', ''thing''), (''location'', ''place''),
      (''concept'', ''concept''), (''project'', ''project''), (''technology'', ''concept''),
      (''date'', ''thing''), (''event'', ''thing'')]"

definition find_or_create_entity :: "graph_service \<Rightarrow> extracted_entity \<Rightarrow> graph_service \<times> node" where
  "find_or_create_entity gs extracted =
     (let normalized = normalize_entity_text (ent_text extracted) in
      case find_node_by_name (gs_db gs) normalized None of
        Some existing \<Rightarrow>
          (gs\<lparr>gs_db := update_node_access (gs_db gs) (n_id existing)\<rparr>, existing)
      | None \<Rightarrow>
          (let entity_type = (case map_of type_mapping (ent_label extracted) of
                                None \<Rightarrow> ''thing'' | Some t \<Rightarrow> t)
           in case create_node (gs_db gs) (ent_text extracted) entity_type None
                     [(''original_label'', JStr (ent_label extracted)),
                      (''extraction_score'', JReal (ent_score extracted))] of
                (db', nd) \<Rightarrow>
                  (gs\<lparr>gs_db := db',
                      gs_collection := embeddings_add_node (gs_collection gs) (n_id nd)
                         (ent_text extracted) [(''entity_type'', JStr entity_type)],
                      gs_type_counts := counter_add (gs_type_counts gs) entity_type 1\<rparr>, nd)))"

text \<open>The first loop of \<open>add_note\<close>: resolve each extracted entity and add its \<open>mentions\<close> edge.\<close>

fun link_entities ::
  "graph_service \<Rightarrow> uuid \<Rightarrow> extracted_entity list \<Rightarrow> graph_service \<times> node list \<times> edge list" where
  "link_entities gs note_id [] = (gs, [], [])"
| "link_entities gs note_id (ent # rest) =
     (case find_or_create_entity gs ent of
        (gs1, entity_node) \<Rightarrow>
          (case create_edge (gs_db gs1) note_id (n_id entity_node) ''mentions'' (ent_score ent)
                  [(''extraction_score'', JReal (ent_score ent))] of
             (db2, ed) \<Rightarrow>
               (case link_entities (gs1\<lparr>gs_db := db2\<rparr>) note_id rest of
                  (gs3, ns, es) \<Rightarrow> (gs3, entity_node # ns, ed # es))))"

fun auto_link_pairs ::
  "collaborators \<Rightarrow> database \<Rightarrow> node \<Rightarrow> node list \<Rightarrow> database \<times> edge list" where
  "auto_link_pairs co db node_a [] = (db, [])"
| "auto_link_pairs co db node_a (node_b # rest) =
     (case find_edge db (n_id node_a) (n_id node_b) of
        Some existing \<Rightarrow> auto_link_pairs co (boost_edge db (e_id existing) (2/10)) node_a rest
      | None \<Rightarrow>
          (let similarity = compute_similarity co (n_name node_a) (n_name node_b) in
           if similarity > SIMILARITY_THRESHOLD
           then (case create_edge db (n_id node_a) (n_id node_b) ''co_occurs'' similarity
                        [(''similarity'', JReal similarity)] of
                   (db1, ed) \<Rightarrow>
                     (case auto_link_pairs co db1 node_a rest of (db2, es) \<Rightarrow> (db2, ed # es)))
           else auto_link_pairs co db node_a rest))"

fun auto_link_similar :: "collaborators \<Rightarrow> database \<Rightarrow> node list \<Rightarrow> database \<times> edge list" where
  "auto_link_similar co db [] = (db, [])"
| "auto_link_similar co db (node_a # rest) =
     (case auto_link_pairs co db node_a rest of
        (db1, es1) \<Rightarrow>
          (case auto_link_similar co db1 rest of (db2, es2) \<Rightarrow> (db2, es1 @ es2)))"

fun link_similar_loop :: "database \<Rightarrow> uuid \<Rightarrow> search_hit list \<Rightarrow> database \<times> edge list" where
  "link_similar_loop db note_id [] = (db, [])"
| "link_similar_loop db note_id (sim # rest) =
     (if hit_similarity sim > SIMILARITY_THRESHOLD
      then (case get_node db (hit_id sim) of
              Some similar_node \<Rightarrow>
                (if n_entity_type similar_node = ''note''
                 then (case create_edge db note_id (hit_id sim) ''similar_to'' (hit_similarity sim)
                              [(''similarity'', JReal (hit_similarity sim))] of
                         (db1, ed) \<Rightarrow>
                           (case link_similar_loop db1 note_id rest of (db2, es) \<Rightarrow> (db2, ed # es)))
                 else link_similar_loop db note_id rest)
            | None \<Rightarrow> link_similar_loop db note_id rest)
      else link_similar_loop db note_id rest)"

definition link_to_similar_notes ::
  "collaborators \<Rightarrow> graph_service \<Rightarrow> node \<Rightarrow> database \<times> edge list" where
  "link_to_similar_notes co gs note_node =
     link_similar_loop (gs_db gs) (n_id note_node)
       (get_similar_nodes co (gs_collection gs) (n_id note_node) 3)"

text \<open>
  \<open>_check_type_promotions\<close>: the registry's names and the per-type node counts are read
  once, before the loop; each promotion is \<open>create_schema_type\<close> followed by a
  \<open>type_promoted\<close> event.
\<close>

definition promote_type :: "database \<Rightarrow> string \<Rightarrow> int \<Rightarrow> database" where
  "promote_type db entity_type cnt =
     log_adaptation (create_schema_type db entity_type None) ''type_promoted''
       (''Entity type '' @ [CHR 0x27] @ entity_type @ [CHR 0x27] @ '' promoted to schema type ('' @
          str_of_int cnt @ '' entities)'')
       [(''type'', JStr entity_type), (''count'', JInt cnt)]"

definition promotion_step :: "string set \<Rightarrow> database \<Rightarrow> string \<times> int \<Rightarrow> database" where
  "promotion_step schema_types db item =
     (case item of (entity_type, cnt) \<Rightarrow>
        if entity_type \<notin> schema_types \<and> cnt \<ge> TYPE_PROMOTION_THRESHOLD
        then promote_type db entity_type cnt else db)"

definition check_type_promotions :: "database \<Rightarrow> database" where
  "check_type_promotions db =
     (let schema_types = set (map st_name (get_schema_types db));
          all_nodes = get_all_nodes db;
          type_counts = Counter (map n_entity_type all_nodes)
      in foldl (promotion_step schema_types) db type_counts)"

definition check_adaptations :: "database \<Rightarrow> database" where
  "check_adaptations db = decay_edges (check_type_promotions db) (995/1000)"

text \<open>
  \<open>add_note\<close>, in two parts: \<open>link_note\<close> is the body up to and including
  \<open>_link_to_similar_notes\<close> (the note node, its entities and all linking), and
  \<open>add_note\<close> then runs \<open>_check_adaptations\<close> and logs the \<open>note_added\<close> event.
  The latency it logs is measured with \<open>time.perf_counter\<close>; it is a parameter here.
\<close>

definition link_note ::
  "collaborators \<Rightarrow> graph_service \<Rightarrow> Note \<Rightarrow> graph_service \<times> node \<times> node list \<times> edge list" where
  "link_note co gs nt =
     (let title = (case note_title nt of None \<Rightarrow> [] | Some t \<Rightarrow> t);
          note_text = py_strip (title @ [CHR 0x0A] @ note_content nt);
          name = (if title \<noteq> [] then title else take 50 (note_content nt) @ ''...'')
      in case create_node (gs_db gs) name ''note'' (Some (note_content nt))
                [(''tags'', JList (map JStr (note_tags nt)))] of
        (db1, note_node) \<Rightarrow>
          (let gs1 = gs\<lparr>gs_db := db1,
                        gs_collection := embeddings_add_node (gs_collection gs) (n_id note_node)
                           note_text [(''entity_type'', JStr ''note'')]\<rparr>;
               extracted = extract_clean co (note_content nt) None (3/10)
           in case link_entities gs1 (n_id note_node) extracted of
             (gs2, entity_nodes, created_edges) \<Rightarrow>
               (case auto_link_similar co (gs_db gs2) entity_nodes of
                  (db3, auto_edges) \<Rightarrow>
                    (case link_to_similar_notes co (gs2\<lparr>gs_db := db3\<rparr>) note_node of
                       (db4, similar_edges) \<Rightarrow>
                         (gs2\<lparr>gs_db := db4\<rparr>, note_node, entity_nodes,
                          created_edges @ auto_edges @ similar_edges)))))"

definition add_note ::
  "collaborators \<Rightarrow> graph_service \<Rightarrow> Note \<Rightarrow> real \<Rightarrow>
   graph_service \<times> node \<times> node list \<times> edge list" where
  "add_note co gs nt latency_ms =
     (case link_note co gs nt of
        (gs4, note_node, entity_nodes, created_edges) \<Rightarrow>
          (let db5 = check_adaptations (gs_db gs4);
               db6 = log_adaptation db5 ''note_added''
                       (''Added note '' @ [CHR 0x27] @ n_name note_node @ [CHR 0x27] @
                        '' with '' @ str_of_nat (length entity_nodes) @ '' entities'')
                       [(''latency_ms'', JReal latency_ms),
                        (''entity_count'', JInt (int (length entity_nodes)))]
           in (gs4\<lparr>gs_db := db6\<rparr>, note_node, entity_nodes, created_edges)))"

subsection \<open>Queries\<close>

text \<open>
  A message passed to \<open>broadcast\<close> by \<open>query_streaming\<close>: a dictionary with the keys
  \<open>type\<close>, \<open>phase\<close>, \<open>delay_ms\<close> and, depending on the event, \<open>node_id\<close>, \<open>edge_id\<close>
  and \<open>score\<close>. The pauses between broadcasts carry no data and are left out.
\<close>

record traversal_event =
  te_type :: string
  te_phase :: string
  te_node_id :: "uuid option"
  te_edge_id :: "uuid option"
  te_score :: "real option"
  te_delay_ms :: int

definition embedding_search_event :: "uuid \<Rightarrow> real \<Rightarrow> traversal_event" where
  "embedding_search_event node_id score =
     \<lparr>te_type = ''query_traversal'', te_phase = ''embedding_search'', te_node_id = Some node_id,
      te_edge_id = None, te_score = Some score, te_delay_ms = 120\<rparr>"

definition edge_event :: "uuid \<Rightarrow> uuid \<Rightarrow> traversal_event" where
  "edge_event node_id edge_id =
     \<lparr>te_type = ''query_traversal'', te_phase = ''edge_expansion'', te_node_id = Some node_id,
      te_edge_id = Some edge_id, te_score = None, te_delay_ms = 100\<rparr>"

definition discovery_event :: "uuid \<Rightarrow> real \<Rightarrow> traversal_event" where
  "discovery_event other_id score =
     \<lparr>te_type = ''query_traversal'', te_phase = ''edge_expansion'', te_node_id = Some other_id,
      te_edge_id = None, te_score = Some score, te_delay_ms = 120\<rparr>"

definition entity_match_event :: "uuid \<Rightarrow> traversal_event" where
  "entity_match_event node_id =
     \<lparr>te_type = ''query_traversal'', te_phase = ''entity_match'', te_node_id = Some node_id,
      te_edge_id = None, te_score = Some (95/100), te_delay_ms = 120\<rparr>"

definition llm_thinking_event :: traversal_event where
  "llm_thinking_event =
     \<lparr>te_type = ''query_traversal'', te_phase = ''llm_thinking'', te_node_id = None,
      te_edge_id = None, te_score = None, te_delay_ms = 250\<rparr>"

definition complete_event :: traversal_event where
  "complete_event =
     \<lparr>te_type = ''query_traversal'', te_phase = ''complete'', te_node_id = None,
      te_edge_id = None, te_score = None, te_delay_ms = 50\<rparr>"

text \<open>
  The local variables of \<open>query\<close> and \<open>query_streaming\<close>, with the store and, for the
  streaming query, the messages broadcast so far.
\<close>

record traversal =
  tr_db :: database
  tr_nodes :: "node list"
  tr_expanded_nodes :: "uuid set"
  tr_edges :: "edge list"
  tr_traversed_path :: "uuid list"
  tr_events :: "traversal_event list"

definition start_traversal :: "database \<Rightarrow> traversal" where
  "start_traversal db =
     \<lparr>tr_db = db, tr_nodes = [], tr_expanded_nodes = {}, tr_edges = [],
      tr_traversed_path = [], tr_events = []\<rparr>"

text \<open>Phase 1, one iteration over a search result.\<close>

definition search_step :: "traversal \<Rightarrow> search_hit \<Rightarrow> traversal" where
  "search_step st result =
     (case get_node (tr_db st) (hit_id result) of
        None \<Rightarrow> st
      | Some nd \<Rightarrow>
          st\<lparr>tr_nodes := tr_nodes st @ [nd],
             tr_traversed_path := tr_traversed_path st @ [n_id nd],
             tr_db := update_node_access (tr_db st) (n_id nd)\<rparr>)"

definition search_step_streaming :: "traversal \<Rightarrow> search_hit \<Rightarrow> traversal" where
  "search_step_streaming st result =
     (case get_node (tr_db st) (hit_id result) of
        None \<Rightarrow> st
      | Some nd \<Rightarrow>
          st\<lparr>tr_nodes := tr_nodes st @ [nd],
             tr_traversed_path := tr_traversed_path st @ [n_id nd],
             tr_db := update_node_access (tr_db st) (n_id nd),
             tr_events := tr_events st @
               [embedding_search_event (n_id nd) (hit_similarity result)]\<rparr>)"

text \<open>Phase 2, the inner loop body for one edge of \<open>node\<close>, and the outer loop body.\<close>

definition other_endpoint :: "edge \<Rightarrow> uuid \<Rightarrow> uuid" where
  "other_endpoint ed node_id =
     (if e_source_id ed = node_id then e_target_id ed else e_source_id ed)"

definition expand_edge :: "node \<Rightarrow> traversal \<Rightarrow> edge \<Rightarrow> traversal" where
  "expand_edge nd st ed =
     (let st1 = st\<lparr>tr_edges := tr_edges st @ [ed],
                    tr_db := boost_edge (tr_db st) (e_id ed) (1/10)\<rparr>;
          other_id = other_endpoint ed (n_id nd)
      in if other_id \<notin> tr_expanded_nodes st1
         then (case get_node (tr_db st1) other_id of
                 None \<Rightarrow> st1
               | Some other_node \<Rightarrow>
                   st1\<lparr>tr_nodes := tr_nodes st1 @ [other_node],
                       tr_expanded_nodes := insert other_id (tr_expanded_nodes st1),
                       tr_traversed_path := tr_traversed_path st1 @ [other_id]\<rparr>)
         else st1)"

definition expand_edge_streaming :: "node \<Rightarrow> traversal \<Rightarrow> edge \<Rightarrow> traversal" where
  "expand_edge_streaming nd st ed =
     (let st1 = st\<lparr>tr_edges := tr_edges st @ [ed],
                    tr_db := boost_edge (tr_db st) (e_id ed) (1/10),
                    tr_events := tr_events st @ [edge_event (n_id nd) (e_id ed)]\<rparr>;
          other_id = other_endpoint ed (n_id nd)
      in if other_id \<notin> tr_expanded_nodes st1
         then (case get_node (tr_db st1) other_id of
                 None \<Rightarrow> st1
               | Some other_node \<Rightarrow>
                   st1\<lparr>tr_nodes := tr_nodes st1 @ [other_node],
                       tr_expanded_nodes := insert other_id (tr_expanded_nodes st1),
                       tr_traversed_path := tr_traversed_path st1 @ [other_id],
                       tr_events := tr_events st1 @
                         [discovery_event other_id (e_weight ed * (7/10))]\<rparr>)
         else st1)"

definition expand_node :: "traversal \<Rightarrow> node \<Rightarrow> traversal" where
  "expand_node st nd = foldl (expand_edge nd) st (get_edges_for_node (tr_db st) (n_id nd))"

definition expand_node_streaming :: "traversal \<Rightarrow> node \<Rightarrow> traversal" where
  "expand_node_streaming st nd =
     foldl (expand_edge_streaming nd) st (get_edges_for_node (tr_db st) (n_id nd))"

text \<open>Phase 3, one iteration over an entity extracted from the query text.\<close>

definition match_entity :: "traversal \<Rightarrow> extracted_entity \<Rightarrow> traversal" where
  "match_entity st ent =
     (case find_node_by_name (tr_db st) (ent_text ent) None of
        None \<Rightarrow> st
      | Some matching \<Rightarrow>
          if n_id matching \<notin> tr_expanded_nodes st
          then st\<lparr>tr_nodes := tr_nodes st @ [matching],
                  tr_traversed_path := tr_traversed_path st @ [n_id matching]\<rparr>
          else st)"

definition match_entity_streaming :: "traversal \<Rightarrow> extracted_entity \<Rightarrow> traversal" where
  "match_entity_streaming st ent =
     (case find_node_by_name (tr_db st) (ent_text ent) None of
        None \<Rightarrow> st
      | Some matching \<Rightarrow>
          if n_id matching \<notin> tr_expanded_nodes st
          then st\<lparr>tr_nodes := tr_nodes st @ [matching],
                  tr_traversed_path := tr_traversed_path st @ [n_id matching],
                  tr_events := tr_events st @ [entity_match_event (n_id matching)]\<rparr>
          else st)"

text \<open>Phase 4: the context handed to the generation service.\<close>

definition context_nodes_of :: "node list \<Rightarrow> context_node list" where
  "context_nodes_of ns =
     map (\<lambda>n. \<lparr>cn_name = n_name n, cn_entity_type = n_entity_type n,
                cn_content = (case n_content n of
                                None \<Rightarrow> n_name n
                              | Some c \<Rightarrow> if c = [] then n_name n else c)\<rparr>) (take 10 ns)"

definition context_edges_of :: "database \<Rightarrow> edge list \<Rightarrow> context_edge list" where
  "context_edges_of db es =
     concat (map (\<lambda>e. case (get_node db (e_source_id e), get_node db (e_target_id e)) of
                         (Some source, Some target) \<Rightarrow>
                           [\<lparr>ce_source_name = n_name source, ce_target_name = n_name target,
                             ce_relation_type = e_relation_type e\<rparr>]
                       | _ \<Rightarrow> []) (take 5 es))"

text \<open>\<open>_check_query_adaptations\<close>, on the store and the counter it changes.\<close>

definition query_adaptation_step ::
  "database \<times> (string \<times> int) list \<Rightarrow> string \<times> int \<Rightarrow> database \<times> (string \<times> int) list" where
  "query_adaptation_step s item =
     (case s of (db, type_counts) \<Rightarrow>
      case item of (entity_type, cnt) \<Rightarrow>
        if cnt \<ge> 3
        then (let type_counts1 = counter_add type_counts entity_type cnt in
              if counter_get type_counts1 entity_type \<ge> TYPE_PROMOTION_THRESHOLD
              then (if entity_type \<notin> set (map st_name (get_schema_types db))
                    then (create_schema_type db entity_type None, type_counts1)
                    else (db, type_counts1))
              else (db, type_counts1))
        else (db, type_counts))"

definition check_query_adaptations :: "graph_service \<Rightarrow> node list \<Rightarrow> graph_service" where
  "check_query_adaptations gs accessed_nodes =
     (case foldl query_adaptation_step (gs_db gs, gs_type_counts gs)
             (Counter (map n_entity_type accessed_nodes)) of
        (db, type_counts) \<Rightarrow> gs\<lparr>gs_db := db, gs_type_counts := type_counts\<rparr>)"

text \<open>
  \<open>query\<close> and \<open>query_streaming\<close>. The latency is measured with
  \<open>time.perf_counter\<close>; it is a parameter here. \<open>nodes[:5]\<close> is evaluated once,
  before the expansion loop appends to \<open>nodes\<close>. \<open>query_streaming\<close> also returns the
  messages it has broadcast, in order.
\<close>

definition generation_wanted :: "collaborators \<Rightarrow> bool \<Rightarrow> node list \<Rightarrow> bool" where
  "generation_wanted co use_llm ns = (use_llm \<and> llm_is_available co \<and> ns \<noteq> [])"

definition query ::
  "collaborators \<Rightarrow> graph_service \<Rightarrow> string \<Rightarrow> bool \<Rightarrow> int \<Rightarrow> real \<Rightarrow>
   graph_service \<times> query_result" where
  "query co gs query_text use_llm max_results latency_ms =
     (let search_results = embeddings_search co (gs_collection gs) query_text max_results;
          st1 = foldl search_step (start_traversal (gs_db gs)) search_results;
          st1e = st1\<lparr>tr_expanded_nodes := set (map n_id (tr_nodes st1))\<rparr>;
          st2 = foldl expand_node st1e (take 5 (tr_nodes st1e));
          query_entities = extract_with_context co query_text None (3/10);
          st3 = foldl match_entity st2 query_entities;
          used_llm = generation_wanted co use_llm (tr_nodes st3);
          response = (if used_llm
                      then Some (llm_generate_response co query_text
                                   (context_nodes_of (tr_nodes st3))
                                   (context_edges_of (tr_db st3) (tr_edges st3)))
                      else None);
          db4 = record_query (tr_db st3) latency_ms used_llm;
          gs5 = check_query_adaptations (gs\<lparr>gs_db := db4\<rparr>) (tr_nodes st3)
      in (gs5, \<lparr>qr_nodes = tr_nodes st3, qr_edges = tr_edges st3,
                qr_traversed_path = tr_traversed_path st3, qr_response = response,
                qr_latency_ms = latency_ms, qr_used_llm = used_llm\<rparr>))"

definition query_streaming ::
  "collaborators \<Rightarrow> graph_service \<Rightarrow> string \<Rightarrow> bool \<Rightarrow> int \<Rightarrow> real \<Rightarrow>
   graph_service \<times> query_result \<times> traversal_event list" where
  "query_streaming co gs query_text use_llm max_results latency_ms =
     (let search_results = embeddings_search co (gs_collection gs) query_text max_results;
          st1 = foldl search_step_streaming (start_traversal (gs_db gs)) search_results;
          st1e = st1\<lparr>tr_expanded_nodes := set (map n_id (tr_nodes st1))\<rparr>;
          st2 = foldl expand_node_streaming st1e (take 5 (tr_nodes st1e));
          query_entities = extract_with_context co query_text None (3/10);
          st3 = foldl match_entity_streaming st2 query_entities;
          used_llm = generation_wanted co use_llm (tr_nodes st3);
          events4 = (if used_llm then tr_events st3 @ [llm_thinking_event] else tr_events st3);
          response = (if used_llm
                      then Some (llm_generate_response co query_text
                                   (context_nodes_of (tr_nodes st3))
                                   (context_edges_of (tr_db st3) (tr_edges st3)))
                      else None);
          db4 = record_query (tr_db st3) latency_ms used_llm;
          gs5 = check_query_adaptations (gs\<lparr>gs_db := db4\<rparr>) (tr_nodes st3)
      in (gs5, \<lparr>qr_nodes = tr_nodes st3, qr_edges = tr_edges st3,
                qr_traversed_path = tr_traversed_path st3, qr_response = response,
                qr_latency_ms = latency_ms, qr_used_llm = used_llm\<rparr>,
          events4 @ [complete_event]))"

definition node_count :: "database \<Rightarrow> string \<Rightarrow> int" where
  "node_count db t = int (length (filter (\<lambda>n. n_entity_type n = t) (tbl_nodes db)))"

definition promoted_row :: "string \<Rightarrow> schema_type" where
  "promoted_row t = \<lparr>st_name = t, st_count = 0, st_is_seed = False, st_evolved_from = None\<rparr>"

text \<open>
  A store in which five nodes carry a type that has no row in the registry (nodes written
  by something other than \<open>create_node\<close>), a service over it, collaborators that find
  nothing, and a note.
\<close>

definition legacy_db :: database where
  "legacy_db = new_database\<lparr>tbl_nodes :=
     map (\<lambda>i. \<lparr>n_id = i, n_name = ''idea'', n_entity_type = ''concept'', n_content = None,
                n_metadata = [], n_access_count = 0\<rparr>) [0, 1, 2, 3, 4],
     uuid_supply := 5\<rparr>"

definition unpromoted_or_row :: "database \<Rightarrow> string \<Rightarrow> bool" where
  "unpromoted_or_row db t =
     (lookup_schema_type db t = None \<or> lookup_schema_type db t = Some (promoted_row t))"

definition quiet_collaborators :: collaborators where
  "quiet_collaborators =
     \<lparr>predict_entities = (\<lambda>_ _ _. []), embeddings_search = (\<lambda>_ _ _. []),
      get_similar_nodes = (\<lambda>_ _ _. []), compute_similarity = (\<lambda>_ _. 0),
      llm_is_available = False, llm_generate_response = (\<lambda>_ _ _. [])\<rparr>"

definition legacy_service :: graph_service where
  "legacy_service = \<lparr>gs_db = legacy_db, gs_collection = [], gs_type_counts = []\<rparr>"

definition plain_note :: Note where
  "plain_note = \<lparr>note_content = ''Remember the milk'', note_title = Some ''Todo'', note_tags = []\<rparr>"

text \<open>A traversal state with the broadcast messages dropped.\<close>

definition silent :: "traversal \<Rightarrow> traversal" where
  "silent st = st\<lparr>tr_events := []\<rparr>"

text \<open>
  Phases 1 to 3 of \<open>query\<close> and of \<open>query_streaming\<close>, named so that the properties
  below can speak about the state in which phase 4 starts.
\<close>

definition traverse :: "collaborators \<Rightarrow> graph_service \<Rightarrow> string \<Rightarrow> int \<Rightarrow> traversal" where
  "traverse co gs query_text max_results =
     (let st1 = foldl search_step (start_traversal (gs_db gs))
                  (embeddings_search co (gs_collection gs) query_text max_results);
          st1e = st1\<lparr>tr_expanded_nodes := set (map n_id (tr_nodes st1))\<rparr>;
          st2 = foldl expand_node st1e (take 5 (tr_nodes st1e))
      in foldl match_entity st2 (extract_with_context co query_text None (3/10)))"

definition traverse_streaming :: "collaborators \<Rightarrow> graph_service \<Rightarrow> string \<Rightarrow> int \<Rightarrow> traversal" where
  "traverse_streaming co gs query_text max_results =
     (let st1 = foldl search_step_streaming (start_traversal (gs_db gs))
                  (embeddings_search co (gs_collection gs) query_text max_results);
          st1e = st1\<lparr>tr_expanded_nodes := set (map n_id (tr_nodes st1))\<rparr>;
          st2 = foldl expand_node_streaming st1e (take 5 (tr_nodes st1e))
      in foldl match_entity_streaming st2 (extract_with_context co query_text None (3/10)))"

text \<open>
  A small history used in the examples: two notes are ingested (Trip, mentioning Oslo, and
  Call, mentioning Alice), then the query ``Did Alice meet Alice?'' is run with
  \<open>max_results = 1\<close>. The vector search returns the first documents of the collection;
  the entity model finds Oslo, Alice, and Alice twice in the query text.
\<close>

definition story_collaborators :: collaborators where
  "story_collaborators =
     \<lparr>predict_entities = (\<lambda>txt labels threshold.
         if txt = ''Trip to Oslo'' then [span 8 12 (9/10) ''Oslo'' ''location'']
         else if txt = ''Alice called'' then [span 0 5 (9/10) ''Alice'' ''person'']
         else if txt = ''Did Alice meet Alice?''
         then [span 4 9 (9/10) ''Alice'' ''person'', span 15 20 (8/10) ''Alice'' ''person'']
         else []),
      embeddings_search = (\<lambda>coll q k. map (\<lambda>d. \<lparr>hit_id = fst d, hit_similarity = 9/10\<rparr>) (take (nat k) coll)),
      get_similar_nodes = (\<lambda>_ _ _. []),
      compute_similarity = (\<lambda>_ _. 0),
      llm_is_available = False,
      llm_generate_response = (\<lambda>_ _ _. ''An answer.'')\<rparr>"

definition trip_note :: Note where
  "trip_note = \<lparr>note_content = ''Trip to Oslo'', note_title = Some ''Trip'', note_tags = []\<rparr>"

definition call_note :: Note where
  "call_note = \<lparr>note_content = ''Alice called'', note_title = Some ''Call'', note_tags = []\<rparr>"

definition story_service :: graph_service where
  "story_service =
     fst (add_note story_collaborators
            (fst (add_note story_collaborators (open_graph_service empty_database []) trip_note 1))
            call_note 1)"

text \<open>
  A discovery message is an \<open>edge_expansion\<close> message without an edge id. It is exposed
  by an edge message when some traversed edge has the edge message's edge id, is incident
  to the edge message's node, has the discovered node as its other endpoint and gives the
  discovery its score (weight times 0.7).
\<close>

definition is_discovery :: "traversal_event \<Rightarrow> bool" where
  "is_discovery ev = (te_phase ev = ''edge_expansion'' \<and> te_edge_id ev = None)"

definition exposed_by :: "edge list \<Rightarrow> traversal_event \<Rightarrow> traversal_event \<Rightarrow> bool" where
  "exposed_by es d e =
     list_ex (\<lambda>ed. case te_node_id e of
                      None \<Rightarrow> False
                    | Some n \<Rightarrow>
                        e = edge_event n (e_id ed) \<and>
                        (e_source_id ed = n \<or> e_target_id ed = n) \<and>
                        d = discovery_event (other_endpoint ed n) (e_weight ed * (7/10))) es"

definition discoveries_follow_edges :: "edge list \<Rightarrow> traversal_event list \<Rightarrow> bool" where
  "discoveries_follow_edges es evs =
     (\<forall>i < length evs. is_discovery (evs ! i) \<longrightarrow> 0 < i \<and> exposed_by es (evs ! i) (evs ! (i - 1)))"

text \<open>The loop invariant of the traversal for the pairing of discoveries with edges.\<close>

definition traced :: "traversal \<Rightarrow> bool" where
  "traced st = discoveries_follow_edges (tr_edges st) (tr_events st)"

text \<open>From \<open>st\<close> to \<open>st'\<close> only messages of phase \<open>p\<close> were broadcast.\<close>

definition phase_run :: "string \<Rightarrow> traversal \<Rightarrow> traversal \<Rightarrow> bool" where
  "phase_run p st st' =
     (\<exists>k. map te_phase (tr_events st') = map te_phase (tr_events st) @ replicate k p)"

text \<open>
  A note whose text holds the entity ``New  York'' written with two spaces, as the entity
  model returns it (the span of the text), and collaborators that find it.
\<close>

definition york_collaborators :: collaborators where
  "york_collaborators =
     \<lparr>predict_entities = (\<lambda>txt labels threshold.
         if txt = ''Visited New  York'' then [span 8 17 (9/10) ''New  York'' ''location'']
         else []),
      embeddings_search = (\<lambda>coll q k. []),
      get_similar_nodes = (\<lambda>_ _ _. []),
      compute_similarity = (\<lambda>_ _. 0),
      llm_is_available = False,
      llm_generate_response = (\<lambda>_ _ _. [])\<rparr>"

definition york_note :: Note where
  "york_note = \<lparr>note_content = ''Visited New  York'', note_title = Some ''Visit'', note_tags = []\<rparr>"

definition york_twice :: graph_service where
  "york_twice =
     fst (add_note york_collaborators
            (fst (add_note york_collaborators (open_graph_service empty_database []) york_note 1))
            york_note 1)"

definition trip_twice :: graph_service where
  "trip_twice =
     fst (add_note story_collaborators
            (fst (add_note story_collaborators (open_graph_service empty_database []) trip_note 1))
            trip_note 1)"

section \<open>Properties of the store\<close>

subsection \<open>Helper facts about the schema-type registry\<close>

lemma names_insert_or_ignore:
  "set (map st_name (insert_or_ignore_schema_type r rows)) = insert (st_name r) (set (map st_name rows))"
  by (auto simp: insert_or_ignore_schema_type_def)

lemma map_names_upsert_present:
  "t \<in> set (map st_name rows) \<Longrightarrow> map st_name (upsert_schema_type t rows) = map st_name rows"
  by (simp add: upsert_schema_type_def o_def cong: map_cong)

lemma names_upsert:
  "set (map st_name (upsert_schema_type t rows)) = insert t (set (map st_name rows))"
proof (cases "t \<in> set (map st_name rows)")
  case True
  then show ?thesis by (simp only: map_names_upsert_present) auto
next
  case False
  then show ?thesis by (simp add: upsert_schema_type_def)
qed

lemma distinct_insert_or_ignore:
  "distinct (map st_name rows) \<Longrightarrow> distinct (map st_name (insert_or_ignore_schema_type r rows))"
  by (auto simp: insert_or_ignore_schema_type_def)

lemma distinct_upsert:
  "distinct (map st_name rows) \<Longrightarrow> distinct (map st_name (upsert_schema_type t rows))"
proof (cases "t \<in> set (map st_name rows)")
  case True
  assume "distinct (map st_name rows)"
  with True show ?thesis by (simp only: map_names_upsert_present)
next
  case False
  assume "distinct (map st_name rows)"
  with False show ?thesis by (auto simp: upsert_schema_type_def)
qed

lemma find_append_absent:
  "\<not> (\<exists>x \<in> set xs. P x) \<Longrightarrow> find P (xs @ ys) = find P ys"
  by (induction xs) auto

lemma find_append_present:
  "find P xs = Some x \<Longrightarrow> find P (xs @ ys) = Some x"
  by (induction xs) (auto split: if_splits)

lemma find_map_bump:
  "find (\<lambda>r. st_name r = t) (map (\<lambda>r. if st_name r = u then r\<lparr>st_count := st_count r + 1\<rparr> else r) rows) =
   map_option (\<lambda>r. if st_name r = u then r\<lparr>st_count := st_count r + 1\<rparr> else r)
     (find (\<lambda>r. st_name r = t) rows)"
  by (induction rows) auto

lemma find_name_None: "find (\<lambda>r. st_name r = t) rows = None \<longleftrightarrow> t \<notin> set (map st_name rows)"
  by (auto simp: find_None_iff)

lemma find_filter_keep:
  "find P xs = Some r \<Longrightarrow> Q r \<Longrightarrow> find P (filter Q xs) = Some r"
  by (induction xs) (auto split: if_splits)

lemma find_map_name_preserving:
  "(\<And>r. st_name (f r) = st_name r) \<Longrightarrow>
   find (\<lambda>r. st_name r = t) (map f rows) = map_option f (find (\<lambda>r. st_name r = t) rows)"
  by (induction rows) auto

lemma count_rows_distinct:
  "distinct (map st_name rows) \<Longrightarrow> t \<in> set (map st_name rows) \<Longrightarrow>
   length (filter (\<lambda>r. st_name r = t) rows) = 1"
proof (induction rows)
  case Nil
  then show ?case by simp
next
  case (Cons r rows)
  show ?case
  proof (cases "st_name r = t")
    case True
    with Cons.prems have "t \<notin> st_name ` set rows" by auto
    then have "filter (\<lambda>r. st_name r = t) rows = []" by (auto simp: filter_empty_conv)
    with True show ?thesis by simp
  next
    case False
    with Cons show ?thesis by auto
  qed
qed

lemma example_dbs:
  "tbl_schema_types new_database = [seed_row ''note'' 0, seed_row ''person'' 0, seed_row ''place'' 0, seed_row ''thing'' 0]"
  "tbl_nodes new_database = []"
  "tbl_edges new_database = []"
  "tbl_adaptation_events new_database = []"
  "uuid_supply new_database = 0"
  "tbl_metrics new_database = empty_metrics"
  by (simp_all add: new_database_def init_schema_def empty_database_def seed_types_def
      insert_or_ignore_schema_type_def seed_row_def)

lemma two_edge_db_edges:
  "tbl_edges two_edge_db =
     [\<lparr>e_id = 0, e_source_id = 0, e_target_id = 1, e_relation_type = ''mentions'',
       e_weight = 1/2, e_metadata = [], e_traversal_count = 0\<rparr>,
      \<lparr>e_id = 1, e_source_id = 1, e_target_id = 2, e_relation_type = ''co_occurs'',
       e_weight = 10, e_metadata = [], e_traversal_count = 0\<rparr>]"
  by (simp add: two_edge_db_def create_edge_def Let_def example_dbs)

subsection \<open>Edge weights\<close>

lemma boost_edge_weights:
  "map e_weight (tbl_edges (boost_edge db edge_id boost_amount)) =
     map (\<lambda>e. if e_id e = edge_id then min (e_weight e + boost_amount) 10 else e_weight e)
       (tbl_edges db)"
  by (simp add: boost_edge_def o_def cong: if_cong)

lemma decay_edges_weights:
  "map e_weight (tbl_edges (decay_edges db decay_factor)) =
     map (\<lambda>e. max (e_weight e * decay_factor) (1/10)) (tbl_edges db)"
  by (simp add: decay_edges_def o_def)

lemma weights_in_range_iff:
  "weights_in_range db \<longleftrightarrow> list_all weight_in_range (map e_weight (tbl_edges db))"
  by (simp add: weights_in_range_def list_all_iff)

lemma boost_in_range:
  "weight_in_range w \<Longrightarrow> 0 \<le> a \<Longrightarrow> weight_in_range (min (w + a) 10)"
  by (auto simp: weight_in_range_def)

lemma decay_in_range:
  assumes "weight_in_range w" "f \<le> 1"
  shows "weight_in_range (max (w * f) (1/10))"
proof -
  from assms have "0 \<le> w" "w \<le> 10" by (auto simp: weight_in_range_def)
  with assms(2) have "w * f \<le> w * 1" by (intro mult_left_mono) auto
  with \<open>w \<le> 10\<close> show ?thesis by (auto simp: weight_in_range_def)
qed

text \<open>
  C3, as amended. \<open>boost_edge\<close> adds the amount and clamps only from above (at 10),
  \<open>decay_edges\<close> multiplies and clamps only from below (at 0.1). So weights that lie in
  [0.1, 10] stay there after a boost by a non-negative amount and after a decay by a factor
  of at most 1 (the code's own calls boost by 0.1, 0.2 and 0.5 and decay by 0.995).
\<close>

theorem weight_bounds_preserved:
  "weights_in_range db \<Longrightarrow>
     map e_weight (tbl_edges (boost_edge db edge_id boost_amount)) =
       map (\<lambda>e. if e_id e = edge_id then min (e_weight e + boost_amount) 10 else e_weight e)
         (tbl_edges db) \<and>
     map e_weight (tbl_edges (decay_edges db decay_factor)) =
       map (\<lambda>e. max (e_weight e * decay_factor) (1/10)) (tbl_edges db) \<and>
     (0 \<le> boost_amount \<longrightarrow> weights_in_range (boost_edge db edge_id boost_amount)) \<and>
     (decay_factor \<le> 1 \<longrightarrow> weights_in_range (decay_edges db decay_factor))"
proof -
  assume inv: "weights_in_range db"
  have b: "weights_in_range (boost_edge db edge_id boost_amount)" if "0 \<le> boost_amount"
    using inv that
    by (auto simp: weights_in_range_iff boost_edge_weights list_all_iff intro: boost_in_range)
  have d: "weights_in_range (decay_edges db decay_factor)" if "decay_factor \<le> 1"
    using inv that
    by (auto simp: weights_in_range_iff decay_edges_weights list_all_iff intro: decay_in_range)
  from b d show ?thesis
    by (simp only: boost_edge_weights decay_edges_weights) simp
qed

theorem weight_bounds_preserved_witness:
  "weights_in_range two_edge_db \<and>
   weights_in_range (boost_edge two_edge_db 1 (1/10)) \<and>
   weights_in_range (decay_edges two_edge_db (995/1000)) \<and>
   map e_weight (tbl_edges (boost_edge two_edge_db 1 (1/10))) = [1/2, 10] \<and>
   map e_weight (tbl_edges (decay_edges two_edge_db (995/1000))) = [995/2000, 995/100]"
proof -
  have h: "weights_in_range two_edge_db"
    by (simp add: weights_in_range_iff two_edge_db_edges weight_in_range_def)
  from weight_bounds_preserved [OF h, of 1 "1/10" "995/1000"] h show ?thesis
    by (simp add: two_edge_db_edges)
qed

text \<open>
  C3, stated for any boost amount and any decay factor, fails: on a store whose weights are
  0.5 and 10, a boost of the first edge by -1 takes its weight below 0.1, and a decay by
  the factor 2 takes the second weight above 10.
\<close>

theorem weight_bounds_counterexample:
  "weights_in_range two_edge_db \<and>
   \<not> weights_in_range (boost_edge two_edge_db 0 (-1)) \<and>
   \<not> weights_in_range (decay_edges two_edge_db 2)"
  by (simp add: weights_in_range_iff boost_edge_weights decay_edges_weights two_edge_db_edges
      weight_in_range_def)

subsection \<open>Invariants of the registry under every operation\<close>

lemma filter_seed_reset:
  "filter st_is_seed (map (\<lambda>r. if st_is_seed r then r\<lparr>st_count := 0\<rparr> else r) rows) =
   map (\<lambda>r. r\<lparr>st_count := 0\<rparr>) (filter st_is_seed rows)"
  by (induction rows) auto

lemma clear_all_schema_types:
  "tbl_schema_types (clear_all db) =
     map (\<lambda>r. r\<lparr>st_count := 0\<rparr>) (filter st_is_seed (tbl_schema_types db))"
  by (simp add: clear_all_def Let_def filter_seed_reset del: filter_map)

lemma schema_types_run_op_cases:
  "tbl_schema_types (run_op db op) = tbl_schema_types db \<or>
   (\<exists>t. tbl_schema_types (run_op db op) = upsert_schema_type t (tbl_schema_types db)) \<or>
   (\<exists>r. tbl_schema_types (run_op db op) = insert_or_ignore_schema_type r (tbl_schema_types db)) \<or>
   tbl_schema_types (run_op db op) =
     map (\<lambda>r. r\<lparr>st_count := 0\<rparr>) (filter st_is_seed (tbl_schema_types db))"
proof (cases op)
  case ClearAll
  then show ?thesis by (simp add: clear_all_schema_types)
next
  case (CreateSchemaType name evolved_from)
  then show ?thesis by (auto simp: create_schema_type_def log_adaptation_def)
qed (auto simp: create_node_def create_edge_def update_node_access_def Let_def boost_edge_def
      decay_edges_def log_adaptation_def record_query_def set_edge_weight_floor_def)

lemma distinct_names_run_op:
  assumes "distinct (schema_type_names db)"
  shows "distinct (schema_type_names (run_op db op))"
proof -
  have c: "distinct (map st_name (map (\<lambda>r. r\<lparr>st_count := 0\<rparr>) (filter st_is_seed rows)))"
    if "distinct (map st_name rows)" for rows
    using that by (simp add: o_def distinct_map_filter)
  from assms schema_types_run_op_cases [of db op] show ?thesis
    unfolding schema_type_names_def
    by (auto simp: distinct_upsert distinct_insert_or_ignore c simp del: map_map)
qed

lemma distinct_names_run_ops:
  "distinct (schema_type_names db) \<Longrightarrow> distinct (schema_type_names (run_ops db ops))"
  unfolding run_ops_def by (induction ops arbitrary: db) (simp_all add: distinct_names_run_op)

lemma distinct_names_new_database: "distinct (schema_type_names new_database)"
  by (simp add: schema_type_names_def example_dbs seed_row_def)

lemma seed_lookup_upsert:
  assumes "find (\<lambda>r. st_name r = t) rows = Some r" "st_is_seed r" "st_evolved_from r = None"
  shows "\<exists>r'. find (\<lambda>r. st_name r = t) (upsert_schema_type u rows) = Some r' \<and>
              st_is_seed r' \<and> st_evolved_from r' = None"
  using assms by (auto simp: upsert_schema_type_def find_map_bump find_append_present)

lemma seed_lookup_insert_or_ignore:
  assumes "find (\<lambda>r. st_name r = t) rows = Some r"
  shows "find (\<lambda>r. st_name r = t) (insert_or_ignore_schema_type x rows) = Some r"
  using assms by (auto simp: insert_or_ignore_schema_type_def find_append_present)

lemma seed_lookup_clear:
  assumes "find (\<lambda>r. st_name r = t) rows = Some r" "st_is_seed r" "st_evolved_from r = None"
  shows "find (\<lambda>r. st_name r = t) (map (\<lambda>r. r\<lparr>st_count := 0\<rparr>) (filter st_is_seed rows)) =
           Some (seed_row t 0)"
proof -
  from assms(1) have n: "st_name r = t" by (auto simp: find_Some_iff)
  from assms(1,2) have "find (\<lambda>r. st_name r = t) (filter st_is_seed rows) = Some r"
    by (rule find_filter_keep)
  then have "find (\<lambda>r. st_name r = t) (map (\<lambda>r. r\<lparr>st_count := 0\<rparr>) (filter st_is_seed rows)) =
               Some (r\<lparr>st_count := 0\<rparr>)"
    by (simp add: find_map_name_preserving)
  moreover from n assms(2,3) have "r\<lparr>st_count := 0\<rparr> = seed_row t 0"
    by (simp add: seed_row_def)
  ultimately show ?thesis by simp
qed

lemma seed_rows_present_iff:
  "seed_rows_present db \<longleftrightarrow> list_all (seed_ok (tbl_schema_types db)) seed_types"
  by (simp add: seed_rows_present_def seed_ok_def lookup_schema_type_def list_all_iff)

lemma seed_ok_run_op:
  assumes "seed_ok (tbl_schema_types db) t"
  shows "seed_ok (tbl_schema_types (run_op db op)) t"
proof -
  from assms obtain r where r: "find (\<lambda>r. st_name r = t) (tbl_schema_types db) = Some r"
    "st_is_seed r" "st_evolved_from r = None"
    by (auto simp: seed_ok_def split: option.splits)
  have "seed_ok (upsert_schema_type u (tbl_schema_types db)) t" for u
    using seed_lookup_upsert [OF r, of u] by (auto simp: seed_ok_def)
  moreover have "seed_ok (insert_or_ignore_schema_type x (tbl_schema_types db)) t" for x
    using seed_lookup_insert_or_ignore [OF r(1), of x] r by (simp add: seed_ok_def)
  moreover have "seed_ok (map (\<lambda>r. r\<lparr>st_count := 0\<rparr>) (filter st_is_seed (tbl_schema_types db))) t"
    using seed_lookup_clear [OF r] by (simp add: seed_ok_def seed_row_def)
  ultimately show ?thesis
    using schema_types_run_op_cases [of db op] assms by auto
qed

lemma seed_rows_present_run_ops:
  "seed_rows_present db \<Longrightarrow> seed_rows_present (run_ops db ops)"
  unfolding run_ops_def
  by (induction ops arbitrary: db) (simp_all add: seed_rows_present_iff list_all_iff seed_ok_run_op)

lemma seed_rows_present_new_database: "seed_rows_present new_database"
  by (simp add: seed_rows_present_iff seed_ok_def example_dbs seed_types_def seed_row_def)

lemma clear_all_seed_lookup:
  assumes "seed_rows_present db" "t \<in> set seed_types"
  shows "lookup_schema_type (clear_all db) t = Some (seed_row t 0)"
proof -
  from assms have "seed_ok (tbl_schema_types db) t"
    by (simp add: seed_rows_present_iff list_all_iff)
  then obtain r where r: "find (\<lambda>r. st_name r = t) (tbl_schema_types db) = Some r"
    "st_is_seed r" "st_evolved_from r = None"
    by (auto simp: seed_ok_def split: option.splits)
  from seed_lookup_clear [OF r] show ?thesis
    by (simp add: lookup_schema_type_def clear_all_schema_types)
qed

subsection \<open>Resetting the store\<close>

text \<open>
  C8. \<open>clear_all\<close> empties the node, edge and adaptation-event tables, sets the three
  metrics counters to zero, drops every schema type that is not a seed and keeps every seed
  type with its count set to zero. In every store reached from a fresh one by any sequence
  of operations, the four seed types note, person, place and thing are therefore present
  with count 0 after \<open>clear_all\<close>.
\<close>

theorem clear_all_resets:
  "tbl_nodes (clear_all db) = [] \<and>
   tbl_edges (clear_all db) = [] \<and>
   tbl_adaptation_events (clear_all db) = [] \<and>
   tbl_metrics (clear_all db) = \<lparr>total_queries = 0, llm_calls = 0, total_latency_ms = 0\<rparr> \<and>
   tbl_schema_types (clear_all db) =
     map (\<lambda>r. r\<lparr>st_count := 0\<rparr>) (filter st_is_seed (tbl_schema_types db)) \<and>
   map (lookup_schema_type (clear_all (run_ops new_database ops))) seed_types =
     [Some (seed_row ''note'' 0), Some (seed_row ''person'' 0),
      Some (seed_row ''place'' 0), Some (seed_row ''thing'' 0)]"
proof -
  have p: "seed_rows_present (run_ops new_database ops)"
    by (rule seed_rows_present_run_ops) (rule seed_rows_present_new_database)
  have "lookup_schema_type (clear_all (run_ops new_database ops)) t = Some (seed_row t 0)"
    if "t \<in> set seed_types" for t
    using p that by (rule clear_all_seed_lookup)
  then have "map (lookup_schema_type (clear_all (run_ops new_database ops))) seed_types =
             map (\<lambda>t. Some (seed_row t 0)) seed_types"
    by simp
  then have s: "map (lookup_schema_type (clear_all (run_ops new_database ops))) seed_types =
     [Some (seed_row ''note'' 0), Some (seed_row ''person'' 0),
      Some (seed_row ''place'' 0), Some (seed_row ''thing'' 0)]"
    by (simp add: seed_types_def)
  have "tbl_nodes (clear_all db) = []" "tbl_edges (clear_all db) = []"
    "tbl_adaptation_events (clear_all db) = []"
    "tbl_metrics (clear_all db) = \<lparr>total_queries = 0, llm_calls = 0, total_latency_ms = 0\<rparr>"
    by (simp_all add: clear_all_def Let_def)
  with s clear_all_schema_types [of db] show ?thesis by simp
qed

theorem clear_all_resets_witness:
  "tbl_schema_types (clear_all (run_ops new_database busy_ops)) =
     [seed_row ''note'' 0, seed_row ''person'' 0, seed_row ''place'' 0, seed_row ''thing'' 0] \<and>
   map st_name (tbl_schema_types (run_ops new_database busy_ops)) =
     [''note'', ''person'', ''place'', ''thing'', ''concept'', ''project''] \<and>
   map st_count (tbl_schema_types (run_ops new_database busy_ops)) = [1, 0, 1, 0, 1, 0] \<and>
   tbl_nodes (clear_all (run_ops new_database busy_ops)) = [] \<and>
   tbl_metrics (clear_all (run_ops new_database busy_ops)) = empty_metrics"
proof -
  have r: "tbl_schema_types (run_ops new_database busy_ops) =
      [seed_row ''note'' 1, seed_row ''person'' 0, seed_row ''place'' 1, seed_row ''thing'' 0,
       \<lparr>st_name = ''concept'', st_count = 1, st_is_seed = False, st_evolved_from = None\<rparr>,
       \<lparr>st_name = ''project'', st_count = 0, st_is_seed = False, st_evolved_from = None\<rparr>]"
    by (simp add: run_ops_def busy_ops_def create_node_def create_edge_def Let_def
        create_schema_type_def log_adaptation_def record_query_def upsert_schema_type_def
        insert_or_ignore_schema_type_def example_dbs seed_row_def)
  from clear_all_resets [of "run_ops new_database busy_ops" busy_ops] show ?thesis
    by (simp add: r seed_row_def empty_metrics_def)
qed

subsection \<open>Promotion primitive\<close>

text \<open>
  C9. Calling \<open>create_schema_type\<close> a second time with the same name leaves the
  registry as the first call left it: the table is unchanged, the name has exactly one
  row (names being the table's primary key), and when the first call inserted the row, its
  fields (count 0, not a seed, the first call's \<open>evolved_from\<close>) are still those of the
  first call.
\<close>

theorem create_schema_type_idempotent:
  "distinct (schema_type_names db) \<Longrightarrow>
   tbl_schema_types (create_schema_type (create_schema_type db name ev1) name ev2) =
     tbl_schema_types (create_schema_type db name ev1) \<and>
   length (filter (\<lambda>r. st_name r = name)
     (tbl_schema_types (create_schema_type (create_schema_type db name ev1) name ev2))) = 1 \<and>
   lookup_schema_type (create_schema_type (create_schema_type db name ev1) name ev2) name =
     (case lookup_schema_type db name of
        None \<Rightarrow> Some \<lparr>st_name = name, st_count = 0, st_is_seed = False, st_evolved_from = ev1\<rparr>
      | Some r \<Rightarrow> Some r)"
proof -
  assume d: "distinct (schema_type_names db)"
  let ?once = "create_schema_type db name ev1"
  let ?twice = "create_schema_type ?once name ev2"
  let ?row = "\<lparr>st_name = name, st_count = 0, st_is_seed = False, st_evolved_from = ev1\<rparr>"
  have once: "tbl_schema_types ?once = insert_or_ignore_schema_type ?row (tbl_schema_types db)"
    by (simp add: create_schema_type_def log_adaptation_def)
  then have mem: "name \<in> set (map st_name (tbl_schema_types ?once))"
    by (simp only: names_insert_or_ignore) simp
  then have same: "tbl_schema_types ?twice = tbl_schema_types ?once"
    by (simp add: create_schema_type_def [of ?once] log_adaptation_def
        insert_or_ignore_schema_type_def)
  from d have "distinct (map st_name (tbl_schema_types ?once))"
    unfolding once schema_type_names_def by (rule distinct_insert_or_ignore)
  with mem have one: "length (filter (\<lambda>r. st_name r = name) (tbl_schema_types ?once)) = 1"
    by (intro count_rows_distinct)
  have look: "find (\<lambda>r. st_name r = name) (tbl_schema_types ?once) =
     (case find (\<lambda>r. st_name r = name) (tbl_schema_types db) of
        None \<Rightarrow> Some ?row | Some r \<Rightarrow> Some r)"
  proof (cases "find (\<lambda>r. st_name r = name) (tbl_schema_types db)")
    case None
    then have a: "name \<notin> set (map st_name (tbl_schema_types db))" by (simp add: find_name_None)
    then have "find (\<lambda>r. st_name r = name) (tbl_schema_types db @ [?row]) =
               find (\<lambda>r. st_name r = name) [?row]"
      by (intro find_append_absent) auto
    with a show ?thesis
      by (simp add: once insert_or_ignore_schema_type_def None)
  next
    case (Some r)
    then show ?thesis by (simp add: once seed_lookup_insert_or_ignore)
  qed
  from same one look show ?thesis by (simp add: lookup_schema_type_def)
qed

theorem create_schema_type_idempotent_witness:
  "distinct (schema_type_names new_database) \<and>
   tbl_schema_types (create_schema_type (create_schema_type new_database ''project'' None)
       ''project'' (Some ''thing'')) =
     tbl_schema_types new_database @
       [\<lparr>st_name = ''project'', st_count = 0, st_is_seed = False, st_evolved_from = None\<rparr>] \<and>
   lookup_schema_type (create_schema_type (create_schema_type new_database ''project'' None)
       ''project'' (Some ''thing'')) ''project'' =
     Some \<lparr>st_name = ''project'', st_count = 0, st_is_seed = False, st_evolved_from = None\<rparr>"
proof -
  have o: "tbl_schema_types (create_schema_type new_database ''project'' None) =
     tbl_schema_types new_database @
       [\<lparr>st_name = ''project'', st_count = 0, st_is_seed = False, st_evolved_from = None\<rparr>]"
    by (simp add: create_schema_type_def log_adaptation_def insert_or_ignore_schema_type_def
        example_dbs seed_row_def)
  have l: "lookup_schema_type new_database ''project'' = None"
    by (simp add: lookup_schema_type_def example_dbs seed_row_def)
  from create_schema_type_idempotent [OF distinct_names_new_database, of "''project''" None "Some ''thing''"]
  show ?thesis by (simp add: o l distinct_names_new_database)
qed

subsection \<open>Every node's type is registered\<close>

lemma names_run_op_mono:
  assumes "op \<noteq> ClearAll" "t \<in> set (schema_type_names db)"
  shows "t \<in> set (schema_type_names (run_op db op))"
proof (cases op)
  case (CreateNode name entity_type content meta)
  with assms(2) show ?thesis
    by (simp add: schema_type_names_def create_node_def Let_def names_upsert del: set_map)
next
  case (CreateSchemaType name evolved_from)
  with assms(2) show ?thesis
    by (simp add: schema_type_names_def create_schema_type_def log_adaptation_def
        names_insert_or_ignore del: set_map)
next
  case ClearAll
  with assms(1) show ?thesis by simp
qed (use assms(2) in \<open>simp_all add: schema_type_names_def create_edge_def update_node_access_def
      Let_def boost_edge_def decay_edges_def log_adaptation_def record_query_def
      set_edge_weight_floor_def\<close>)

lemma node_types_run_op:
  "op \<noteq> ClearAll \<Longrightarrow>
   map n_entity_type (tbl_nodes (run_op db op)) =
     map n_entity_type (tbl_nodes db) @
       (case op of CreateNode name entity_type content meta \<Rightarrow> [entity_type] | _ \<Rightarrow> [])"
  by (cases op)
     (simp_all add: create_node_def create_edge_def update_node_access_def Let_def boost_edge_def
        decay_edges_def log_adaptation_def record_query_def set_edge_weight_floor_def
        create_schema_type_def o_def cong: if_cong)

lemma types_registered_iff:
  "types_registered db \<longleftrightarrow>
     set (map n_entity_type (tbl_nodes db)) \<subseteq> set (schema_type_names db)"
  by (auto simp: types_registered_def list_all_iff)

lemma types_registered_run_op:
  assumes "types_registered db"
  shows "types_registered (run_op db op)"
proof (cases "op = ClearAll")
  case True
  then show ?thesis by (simp add: types_registered_def clear_all_def Let_def)
next
  case False
  show ?thesis
    unfolding types_registered_iff
  proof
    fix t assume "t \<in> set (map n_entity_type (tbl_nodes (run_op db op)))"
    then have "t \<in> set (map n_entity_type (tbl_nodes db)) \<or>
               (\<exists>name content meta. op = CreateNode name t content meta)"
      unfolding node_types_run_op [OF False] by (cases op) auto
    then show "t \<in> set (schema_type_names (run_op db op))"
    proof
      assume "t \<in> set (map n_entity_type (tbl_nodes db))"
      with assms have "t \<in> set (schema_type_names db)" by (auto simp: types_registered_iff)
      with False show ?thesis by (rule names_run_op_mono)
    next
      assume "\<exists>name content meta. op = CreateNode name t content meta"
      then show ?thesis
        by (auto simp: schema_type_names_def create_node_def Let_def names_upsert simp del: set_map)
    qed
  qed
qed

lemma types_registered_run_ops:
  "types_registered db \<Longrightarrow> types_registered (run_ops db ops)"
  unfolding run_ops_def by (induction ops arbitrary: db) (simp_all add: types_registered_run_op)

lemma create_node_lookup:
  "lookup_schema_type (fst (create_node db name t content meta)) t =
     (case lookup_schema_type db t of
        None \<Rightarrow> Some \<lparr>st_name = t, st_count = 1, st_is_seed = False, st_evolved_from = None\<rparr>
      | Some r \<Rightarrow> Some (r\<lparr>st_count := st_count r + 1\<rparr>))"
proof (cases "find (\<lambda>r. st_name r = t) (tbl_schema_types db)")
  case None
  then have a: "t \<notin> set (map st_name (tbl_schema_types db))" by (simp add: find_name_None)
  then have "find (\<lambda>r. st_name r = t) (tbl_schema_types db @
                [\<lparr>st_name = t, st_count = 1, st_is_seed = False, st_evolved_from = None\<rparr>]) =
             find (\<lambda>r. st_name r = t)
                [\<lparr>st_name = t, st_count = 1, st_is_seed = False, st_evolved_from = None\<rparr>]"
    by (intro find_append_absent) auto
  with a None show ?thesis
    by (simp add: lookup_schema_type_def create_node_def Let_def upsert_schema_type_def)
next
  case (Some r)
  then have "st_name r = t" "t \<in> set (map st_name (tbl_schema_types db))"
    by (auto simp: find_Some_iff)
  with Some show ?thesis
    by (simp add: lookup_schema_type_def create_node_def Let_def upsert_schema_type_def
        find_map_bump del: set_map)
qed

text \<open>
  C2. The type of every node is a name of the schema-type registry: this holds in a fresh
  store, every operation on the store preserves it (\<open>clear_all\<close> included, which removes
  the nodes together with the non-seed types), so it holds after any sequence of
  operations. \<open>create_node\<close> itself registers the type in the same step: a type without
  a row gets a row with count 1 that is not a seed, a type with a row gets its count
  incremented, whatever the number of nodes of that type.
\<close>

theorem node_types_always_registered:
  "types_registered (run_ops new_database ops) \<and>
   (types_registered db \<longrightarrow> types_registered (run_op db op)) \<and>
   types_registered (clear_all db) \<and>
   lookup_schema_type (fst (create_node db name t content meta)) t =
     (case lookup_schema_type db t of
        None \<Rightarrow> Some \<lparr>st_name = t, st_count = 1, st_is_seed = False, st_evolved_from = None\<rparr>
      | Some r \<Rightarrow> Some (r\<lparr>st_count := st_count r + 1\<rparr>)) \<and>
   tbl_nodes (fst (create_node db name t content meta)) =
     tbl_nodes db @ [snd (create_node db name t content meta)] \<and>
   n_entity_type (snd (create_node db name t content meta)) = t"
proof -
  have "types_registered new_database" by (simp add: types_registered_def example_dbs)
  then have "types_registered (run_ops new_database ops)" by (rule types_registered_run_ops)
  moreover have "types_registered (clear_all db)"
    by (simp add: types_registered_def clear_all_def Let_def)
  moreover have "tbl_nodes (fst (create_node db name t content meta)) =
     tbl_nodes db @ [snd (create_node db name t content meta)]"
    "n_entity_type (snd (create_node db name t content meta)) = t"
    by (simp_all add: create_node_def Let_def)
  ultimately show ?thesis
    using types_registered_run_op [of db op] create_node_lookup [of db name t content meta]
    by (simp only:) simp
qed

theorem node_types_always_registered_witness:
  "types_registered new_database \<and>
   types_registered (run_op new_database (CreateNode ''graphs'' ''concept'' None [])) \<and>
   lookup_schema_type new_database ''concept'' = None \<and>
   lookup_schema_type (fst (create_node new_database ''graphs'' ''concept'' None [])) ''concept'' =
     Some \<lparr>st_name = ''concept'', st_count = 1, st_is_seed = False, st_evolved_from = None\<rparr> \<and>
   lookup_schema_type (fst (create_node new_database ''Ada'' ''person'' None [])) ''person'' =
     Some (seed_row ''person'' 1)"
proof -
  have h: "types_registered new_database" by (simp add: types_registered_def example_dbs)
  have l: "lookup_schema_type new_database ''concept'' = None"
    "lookup_schema_type new_database ''person'' = Some (seed_row ''person'' 0)"
    by (simp_all add: lookup_schema_type_def example_dbs seed_row_def)
  from node_types_always_registered
         [of "[]" new_database "CreateNode ''graphs'' ''concept'' None []" "''graphs''" "''concept''" None "[]"]
       node_types_always_registered
         [of "[]" new_database "CreateNode ''graphs'' ''concept'' None []" "''Ada''" "''person''" None "[]"]
       h l
  show ?thesis by (simp add: seed_row_def)
qed

section \<open>Properties of entity extraction\<close>

lemma merge_loop_sweep:
  "(case merge_loop merged current rest of (m, c) \<Rightarrow> m @ [c]) = merged @ sweep_spec current rest"
  by (induction rest arbitrary: merged current)
     (simp_all add: overlaps_current_def higher_scoring_def)

lemma sort_entities_Nil: "sort_entities entities = [] \<longleftrightarrow> entities = []"
proof -
  have "length (sort_entities entities) = length entities" by (simp add: sort_entities_def)
  then show ?thesis by (metis length_0_conv)
qed

text \<open>
  C6. \<open>merge_overlapping\<close> is the sweep the specification describes, run over the spans
  sorted by start ascending and, for equal starts, by score descending (the sorted list is
  a reordering of the input). On the spans (0,5) with score 0.9, (3,8) with score 0.6 and
  (10,15) with score 0.8, whatever their texts and labels, it returns the first and the
  third.
\<close>

theorem merge_overlapping_sweeps:
  "merge_overlapping entities = merge_overlapping_spec entities \<and>
   sorted (map (\<lambda>e. (ent_start e, - ent_score e)) (sort_entities entities)) \<and>
   mset (sort_entities entities) = mset entities \<and>
   merge_overlapping [span 0 5 (9/10) t1 l1, span 3 8 (6/10) t2 l2, span 10 15 (8/10) t3 l3] =
     [span 0 5 (9/10) t1 l1, span 10 15 (8/10) t3 l3]"
proof -
  have a: "merge_overlapping entities = merge_overlapping_spec entities"
  proof (cases "sort_entities entities")
    case Nil
    then show ?thesis
      by (simp add: merge_overlapping_def merge_overlapping_spec_def)
  next
    case (Cons c rest)
    then have "entities \<noteq> []" using sort_entities_Nil [of entities] by auto
    with Cons merge_loop_sweep [of "[]" c rest] show ?thesis
      by (simp add: merge_overlapping_def merge_overlapping_spec_def)
  qed
  have b: "sorted (map (\<lambda>e. (ent_start e, - ent_score e)) (sort_entities entities))"
    "mset (sort_entities entities) = mset entities"
    by (simp_all add: sort_entities_def)
  have c: "merge_overlapping [span 0 5 (9/10) t1 l1, span 3 8 (6/10) t2 l2, span 10 15 (8/10) t3 l3] =
     [span 0 5 (9/10) t1 l1, span 10 15 (8/10) t3 l3]"
    by (simp add: merge_overlapping_def sort_entities_def span_def)
  from a b c show ?thesis by (simp only:)
qed

section \<open>Properties of ingestion\<close>

lemma counter_get_set:
  "counter_get (counter_set c k v) k' = (if k' = k then v else counter_get c k')"
  by (induction c) (auto simp: counter_get_def)

lemma counter_set_keys:
  "map fst (counter_set c k v) = (if k \<in> set (map fst c) then map fst c else map fst c @ [k])"
  by (induction c) (force simp: image_iff)+

lemma counter_fold_get:
  "counter_get (foldl (\<lambda>c x. counter_add c x 1) c0 xs) t = counter_get c0 t + int (count_list xs t)"
  by (induction xs arbitrary: c0) (auto simp: counter_add_def counter_get_set)

lemma counter_fold_keys:
  "set (map fst (foldl (\<lambda>c x. counter_add c x 1) c0 xs)) = set (map fst c0) \<union> set xs"
  by (induction xs arbitrary: c0) (auto simp: counter_add_def counter_set_keys simp del: set_map)

lemma counter_fold_distinct:
  "distinct (map fst c0) \<Longrightarrow> distinct (map fst (foldl (\<lambda>c x. counter_add c x 1) c0 xs))"
  by (induction xs arbitrary: c0) (auto simp: counter_add_def counter_set_keys simp del: set_map)

lemma Counter_items:
  "(t, c) \<in> set (Counter xs) \<longleftrightarrow> t \<in> set xs \<and> c = int (count_list xs t)"
proof -
  have d: "distinct (map fst (Counter xs))" unfolding Counter_def by (rule counter_fold_distinct) simp
  have k: "set (map fst (Counter xs)) = set xs" unfolding Counter_def by (simp only: counter_fold_keys) simp
  have g: "counter_get (Counter xs) t = int (count_list xs t)"
    unfolding Counter_def by (simp only: counter_fold_get) (simp add: counter_get_def)
  show ?thesis
  proof
    assume m: "(t, c) \<in> set (Counter xs)"
    with d have "map_of (Counter xs) t = Some c" by simp
    then have "counter_get (Counter xs) t = c" by (simp add: counter_get_def)
    with g have "c = int (count_list xs t)" by simp
    moreover from m k have "t \<in> set xs" by force
    ultimately show "t \<in> set xs \<and> c = int (count_list xs t)" by simp
  next
    assume a: "t \<in> set xs \<and> c = int (count_list xs t)"
    with k obtain c' where m: "(t, c') \<in> set (Counter xs)" by force
    with d have "map_of (Counter xs) t = Some c'" by simp
    then have "counter_get (Counter xs) t = c'" by (simp add: counter_get_def)
    with g a have "c' = c" by simp
    with m show "(t, c) \<in> set (Counter xs)" by simp
  qed
qed

lemma count_list_map:
  "count_list (map f xs) t = length (filter (\<lambda>x. f x = t) xs)"
  by (induction xs) auto

lemma promote_type_tables:
  "tbl_schema_types (promote_type db t c) = insert_or_ignore_schema_type (promoted_row t) (tbl_schema_types db)"
  "\<exists>d1 d2. tbl_adaptation_events (promote_type db t c) = tbl_adaptation_events db @
     [\<lparr>ev_event_type = ''type_created'', ev_description = d1,
       ev_details = [(''type_name'', JStr t), (''evolved_from'', JNull)]\<rparr>,
      \<lparr>ev_event_type = ''type_promoted'', ev_description = d2,
       ev_details = [(''type'', JStr t), (''count'', JInt c)]\<rparr>]"
  "tbl_nodes (promote_type db t c) = tbl_nodes db"
  "tbl_edges (promote_type db t c) = tbl_edges db"
  by (simp_all add: promote_type_def create_schema_type_def log_adaptation_def promoted_row_def opt_json_def)

lemma promotion_step_cases:
  "promotion_step S db item = db \<or> promotion_step S db item = promote_type db (fst item) (snd item)"
  by (cases item) (simp add: promotion_step_def)

lemma promotion_step_events_mono:
  "set (tbl_adaptation_events db) \<subseteq> set (tbl_adaptation_events (promotion_step S db item))"
  using promotion_step_cases [of S db item] promote_type_tables(2) [of db "fst item" "snd item"]
  by auto

lemma promotion_fold_events_mono:
  "set (tbl_adaptation_events db) \<subseteq> set (tbl_adaptation_events (foldl (promotion_step S) db items))"
proof (induction items arbitrary: db)
  case Nil
  show ?case by simp
next
  case (Cons item items)
  from promotion_step_events_mono [of db S item] Cons [of "promotion_step S db item"]
  show ?case by auto
qed

lemma lookup_insert_or_ignore:
  "find (\<lambda>r. st_name r = t) (insert_or_ignore_schema_type x rows) =
     (case find (\<lambda>r. st_name r = t) rows of
        Some r \<Rightarrow> Some r
      | None \<Rightarrow> if st_name x = t then Some x else None)"
proof (cases "find (\<lambda>r. st_name r = t) rows")
  case (Some r)
  then show ?thesis by (simp add: seed_lookup_insert_or_ignore)
next
  case None
  then have a: "t \<notin> set (map st_name rows)" by (simp add: find_name_None)
  then have "find (\<lambda>r. st_name r = t) (rows @ [x]) = find (\<lambda>r. st_name r = t) [x]"
    by (intro find_append_absent) auto
  with None a show ?thesis by (auto simp: insert_or_ignore_schema_type_def)
qed

lemma promotion_step_lookup:
  assumes "unpromoted_or_row db t"
  shows "unpromoted_or_row (promotion_step S db item) t"
  using assms promotion_step_cases [of S db item]
  by (auto simp: unpromoted_or_row_def lookup_schema_type_def promote_type_tables
      lookup_insert_or_ignore promoted_row_def split: option.splits)

lemma promotion_fold_lookup:
  "unpromoted_or_row db t \<Longrightarrow> unpromoted_or_row (foldl (promotion_step S) db items) t"
  by (induction items arbitrary: db) (simp_all add: promotion_step_lookup)

lemma promotion_step_registered:
  assumes "lookup_schema_type db t \<noteq> None"
  shows "lookup_schema_type (promotion_step S db item) t \<noteq> None"
  using assms promotion_step_cases [of S db item]
  by (auto simp: lookup_schema_type_def promote_type_tables lookup_insert_or_ignore
      split: option.splits)

lemma promotion_fold_registered:
  "lookup_schema_type db t \<noteq> None \<Longrightarrow>
   lookup_schema_type (foldl (promotion_step S) db items) t \<noteq> None"
proof (induction items arbitrary: db)
  case Nil
  then show ?case by simp
next
  case (Cons item items)
  from Cons.prems have "lookup_schema_type (promotion_step S db item) t \<noteq> None"
    by (rule promotion_step_registered)
  then have "lookup_schema_type (foldl (promotion_step S) (promotion_step S db item) items) t \<noteq> None"
    by (rule Cons.IH)
  then show ?case by simp
qed

lemma promotion_fold_promotes:
  assumes "(t, c) \<in> set items" "t \<notin> S" "TYPE_PROMOTION_THRESHOLD \<le> c"
  shows "lookup_schema_type (foldl (promotion_step S) db items) t \<noteq> None \<and>
         (\<exists>e \<in> set (tbl_adaptation_events (foldl (promotion_step S) db items)).
            ev_event_type e = ''type_promoted'' \<and>
            ev_details e = [(''type'', JStr t), (''count'', JInt c)])"
  using assms(1)
proof (induction items arbitrary: db)
  case Nil
  then show ?case by simp
next
  case (Cons item items)
  show ?case
  proof (cases "item = (t, c)")
    case True
    let ?db1 = "promote_type db t c"
    from True assms(2,3) have s: "promotion_step S db item = ?db1"
      by (simp add: promotion_step_def)
    have "lookup_schema_type ?db1 t \<noteq> None"
      by (simp add: lookup_schema_type_def promote_type_tables lookup_insert_or_ignore
          promoted_row_def split: option.splits)
    then have l: "lookup_schema_type (foldl (promotion_step S) ?db1 items) t \<noteq> None"
      by (rule promotion_fold_registered)
    from promote_type_tables(2) [of db t c]
    have "\<exists>e \<in> set (tbl_adaptation_events ?db1).
            ev_event_type e = ''type_promoted'' \<and>
            ev_details e = [(''type'', JStr t), (''count'', JInt c)]"
      by auto
    with promotion_fold_events_mono [of ?db1 S items]
    have "\<exists>e \<in> set (tbl_adaptation_events (foldl (promotion_step S) ?db1 items)).
            ev_event_type e = ''type_promoted'' \<and>
            ev_details e = [(''type'', JStr t), (''count'', JInt c)]"
      by blast
    with l s show ?thesis by simp
  next
    case False
    with Cons.prems have "(t, c) \<in> set items" by simp
    from Cons.IH [OF this, of "promotion_step S db item"] show ?thesis by simp
  qed
qed

lemma check_type_promotions_promotes:
  assumes "t \<notin> set (schema_type_names db)" "TYPE_PROMOTION_THRESHOLD \<le> node_count db t"
  shows "lookup_schema_type (check_type_promotions db) t = Some (promoted_row t) \<and>
         (\<exists>e \<in> set (tbl_adaptation_events (check_type_promotions db)).
            ev_event_type e = ''type_promoted'' \<and>
            ev_details e = [(''type'', JStr t), (''count'', JInt (node_count db t))])"
proof -
  let ?S = "set (map st_name (get_schema_types db))"
  let ?items = "Counter (map n_entity_type (get_all_nodes db))"
  have S: "?S = set (schema_type_names db)"
    by (simp add: get_schema_types_def schema_type_names_def)
  have c: "node_count db t = int (count_list (map n_entity_type (get_all_nodes db)) t)"
    by (simp add: node_count_def count_list_map get_all_nodes_def)
  from assms(2) have "0 < count_list (map n_entity_type (get_all_nodes db)) t"
    by (simp add: c TYPE_PROMOTION_THRESHOLD_def)
  then have "t \<in> set (map n_entity_type (get_all_nodes db))"
    by (metis count_list_0_iff less_numeral_extra(3))
  then have m: "(t, node_count db t) \<in> set ?items" by (simp only: Counter_items c)
  from assms(1) S have n: "t \<notin> ?S" by simp
  have f: "check_type_promotions db = foldl (promotion_step ?S) db ?items"
    by (simp add: check_type_promotions_def Let_def)
  from assms(1) have "lookup_schema_type db t = None"
    by (simp add: lookup_schema_type_def find_name_None schema_type_names_def)
  then have "unpromoted_or_row db t" by (simp add: unpromoted_or_row_def)
  then have "unpromoted_or_row (foldl (promotion_step ?S) db ?items) t"
    by (rule promotion_fold_lookup)
  with promotion_fold_promotes [OF m n assms(2), of db] f show ?thesis
    by (auto simp: unpromoted_or_row_def)
qed

lemma add_note_tables:
  "tbl_schema_types (gs_db (fst (add_note co gs nt l))) =
     tbl_schema_types (check_type_promotions (gs_db (fst (link_note co gs nt))))"
  "set (tbl_adaptation_events (check_type_promotions (gs_db (fst (link_note co gs nt))))) \<subseteq>
     set (tbl_adaptation_events (gs_db (fst (add_note co gs nt l))))"
  by (auto simp: add_note_def check_adaptations_def decay_edges_def log_adaptation_def Let_def
      split: prod.splits)

text \<open>
  C1. Once a note's entities are linked, the promotion check counts the nodes of every
  type over the whole node table; every type that has no row in the schema-type registry
  and at least 5 nodes gets a row (count 0, not a seed) and a \<open>type_promoted\<close> event
  carrying the type and its node count. This holds for the check on any store, and so for
  the store \<open>add_note\<close> returns when the store is the one its linking part produced.
\<close>

theorem ingestion_promotes_types:
  "t \<notin> set (schema_type_names db) \<Longrightarrow> TYPE_PROMOTION_THRESHOLD \<le> node_count db t \<Longrightarrow>
   lookup_schema_type (check_type_promotions db) t = Some (promoted_row t) \<and>
   (\<exists>e \<in> set (tbl_adaptation_events (check_type_promotions db)).
      ev_event_type e = ''type_promoted'' \<and>
      ev_details e = [(''type'', JStr t), (''count'', JInt (node_count db t))]) \<and>
   (db = gs_db (fst (link_note co gs nt)) \<longrightarrow>
      lookup_schema_type (gs_db (fst (add_note co gs nt latency_ms))) t = Some (promoted_row t) \<and>
      (\<exists>e \<in> set (tbl_adaptation_events (gs_db (fst (add_note co gs nt latency_ms)))).
         ev_event_type e = ''type_promoted'' \<and>
         ev_details e = [(''type'', JStr t), (''count'', JInt (node_count db t))]))"
proof -
  assume a: "t \<notin> set (schema_type_names db)" "TYPE_PROMOTION_THRESHOLD \<le> node_count db t"
  note p = check_type_promotions_promotes [OF a]
  have "lookup_schema_type (gs_db (fst (add_note co gs nt latency_ms))) t = Some (promoted_row t) \<and>
      (\<exists>e \<in> set (tbl_adaptation_events (gs_db (fst (add_note co gs nt latency_ms)))).
         ev_event_type e = ''type_promoted'' \<and>
         ev_details e = [(''type'', JStr t), (''count'', JInt (node_count db t))])"
    if d: "db = gs_db (fst (link_note co gs nt))"
  proof -
    from p have "lookup_schema_type (gs_db (fst (add_note co gs nt latency_ms))) t = Some (promoted_row t)"
      by (simp add: lookup_schema_type_def add_note_tables(1) d)
    moreover from p add_note_tables(2) [of co gs nt latency_ms]
    have "\<exists>e \<in> set (tbl_adaptation_events (gs_db (fst (add_note co gs nt latency_ms)))).
         ev_event_type e = ''type_promoted'' \<and>
         ev_details e = [(''type'', JStr t), (''count'', JInt (node_count db t))]"
      unfolding d by blast
    ultimately show ?thesis by simp
  qed
  with p show ?thesis by blast
qed

lemma linked_legacy:
  "tbl_nodes (gs_db (fst (link_note quiet_collaborators legacy_service plain_note))) =
     tbl_nodes legacy_db @
       [\<lparr>n_id = 5, n_name = ''Todo'', n_entity_type = ''note'', n_content = Some ''Remember the milk'',
         n_metadata = [(''tags'', JList [])], n_access_count = 0\<rparr>]"
  "tbl_schema_types (gs_db (fst (link_note quiet_collaborators legacy_service plain_note))) =
     [seed_row ''note'' 1, seed_row ''person'' 0, seed_row ''place'' 0, seed_row ''thing'' 0]"
  by (simp_all add: link_note_def quiet_collaborators_def legacy_service_def plain_note_def
      legacy_db_def create_node_def Let_def extract_clean_def extract_entities_def
      merge_overlapping_def link_to_similar_notes_def upsert_schema_type_def example_dbs
      seed_row_def)

theorem ingestion_promotes_types_witness:
  "''concept'' \<notin> set (schema_type_names (gs_db (fst (link_note quiet_collaborators legacy_service plain_note)))) \<and>
   node_count (gs_db (fst (link_note quiet_collaborators legacy_service plain_note))) ''concept'' = 5 \<and>
   lookup_schema_type (gs_db (fst (add_note quiet_collaborators legacy_service plain_note 3))) ''concept'' =
     Some (promoted_row ''concept'') \<and>
   (\<exists>e \<in> set (tbl_adaptation_events (gs_db (fst (add_note quiet_collaborators legacy_service plain_note 3)))).
      ev_event_type e = ''type_promoted'' \<and>
      ev_details e = [(''type'', JStr ''concept''), (''count'', JInt 5)])"
proof -
  let ?db = "gs_db (fst (link_note quiet_collaborators legacy_service plain_note))"
  have h1: "''concept'' \<notin> set (schema_type_names ?db)"
    by (simp add: schema_type_names_def linked_legacy seed_row_def)
  have c: "node_count ?db ''concept'' = 5"
    by (simp add: node_count_def linked_legacy legacy_db_def)
  then have h2: "TYPE_PROMOTION_THRESHOLD \<le> node_count ?db ''concept''"
    by (simp add: TYPE_PROMOTION_THRESHOLD_def)
  from ingestion_promotes_types [OF h1 h2, of quiet_collaborators legacy_service plain_note 3] h1 c
  show ?thesis by simp
qed

section \<open>Properties of queries\<close>

lemma silent_fields:
  "tr_db (silent st) = tr_db st" "tr_nodes (silent st) = tr_nodes st"
  "tr_expanded_nodes (silent st) = tr_expanded_nodes st" "tr_edges (silent st) = tr_edges st"
  "tr_traversed_path (silent st) = tr_traversed_path st"
  by (simp_all add: silent_def)

lemma search_step_silent:
  "search_step (silent st) r = silent (search_step_streaming st r)"
  by (simp add: search_step_def search_step_streaming_def silent_def split: option.splits)

lemma expand_edge_silent:
  "expand_edge nd (silent st) ed = silent (expand_edge_streaming nd st ed)"
  by (simp add: expand_edge_def expand_edge_streaming_def silent_def Let_def split: option.splits)

lemma match_entity_silent:
  "match_entity (silent st) ent = silent (match_entity_streaming st ent)"
  by (simp add: match_entity_def match_entity_streaming_def silent_def split: option.splits)

lemma foldl_silent:
  assumes "\<And>st x. f (silent st) x = silent (g st x)"
  shows "foldl f (silent st) xs = silent (foldl g st xs)"
  by (induction xs arbitrary: st) (simp_all add: assms)

lemma expand_node_silent:
  "expand_node (silent st) nd = silent (expand_node_streaming st nd)"
  unfolding expand_node_def expand_node_streaming_def silent_fields
  by (rule foldl_silent) (rule expand_edge_silent)

lemma silent_start: "start_traversal db = silent (start_traversal db)"
  by (simp add: silent_def start_traversal_def)

lemma foldl_expand_node_silent:
  "foldl expand_node (silent st) xs = silent (foldl expand_node_streaming st xs)"
  by (rule foldl_silent) (rule expand_node_silent)

lemma foldl_match_entity_silent:
  "foldl match_entity (silent st) xs = silent (foldl match_entity_streaming st xs)"
  by (rule foldl_silent) (rule match_entity_silent)

lemma silent_expanded:
  "(silent st)\<lparr>tr_expanded_nodes := X\<rparr> = silent (st\<lparr>tr_expanded_nodes := X\<rparr>)"
  by (simp add: silent_def)

lemma traverse_silent:
  "traverse co gs q k = silent (traverse_streaming co gs q k)"
proof -
  let ?rs = "embeddings_search co (gs_collection gs) q k"
  let ?s1 = "foldl search_step_streaming (start_traversal (gs_db gs)) ?rs"
  have 1: "foldl search_step (start_traversal (gs_db gs)) ?rs = silent ?s1"
    by (subst silent_start, rule foldl_silent, rule search_step_silent)
  show ?thesis
    unfolding traverse_def traverse_streaming_def Let_def 1 silent_fields silent_expanded
    by (simp only: foldl_expand_node_silent foldl_match_entity_silent silent_fields)
qed

lemma query_traverse:
  "query co gs q use_llm k l =
     (let st3 = traverse co gs q k;
          used_llm = generation_wanted co use_llm (tr_nodes st3)
      in (check_query_adaptations (gs\<lparr>gs_db := record_query (tr_db st3) l used_llm\<rparr>) (tr_nodes st3),
          \<lparr>qr_nodes = tr_nodes st3, qr_edges = tr_edges st3,
           qr_traversed_path = tr_traversed_path st3,
           qr_response = (if used_llm
                      then Some (llm_generate_response co q
                                   (context_nodes_of (tr_nodes st3))
                                   (context_edges_of (tr_db st3) (tr_edges st3)))
                      else None),
           qr_latency_ms = l, qr_used_llm = used_llm\<rparr>))"
  by (simp add: query_def traverse_def Let_def)

lemma query_streaming_traverse:
  "query_streaming co gs q use_llm k l =
     (let st3 = traverse_streaming co gs q k;
          used_llm = generation_wanted co use_llm (tr_nodes st3)
      in (check_query_adaptations (gs\<lparr>gs_db := record_query (tr_db st3) l used_llm\<rparr>) (tr_nodes st3),
          \<lparr>qr_nodes = tr_nodes st3, qr_edges = tr_edges st3,
           qr_traversed_path = tr_traversed_path st3,
           qr_response = (if used_llm
                      then Some (llm_generate_response co q
                                   (context_nodes_of (tr_nodes st3))
                                   (context_edges_of (tr_db st3) (tr_edges st3)))
                      else None),
           qr_latency_ms = l, qr_used_llm = used_llm\<rparr>,
          (if used_llm then tr_events st3 @ [llm_thinking_event] else tr_events st3) @ [complete_event]))"
  by (simp add: query_streaming_def traverse_streaming_def Let_def)

lemma query_is_streaming_result:
  "query co gs q use_llm k l =
     (fst (query_streaming co gs q use_llm k l), fst (snd (query_streaming co gs q use_llm k l)))"
  by (simp add: query_traverse query_streaming_traverse traverse_silent silent_fields Let_def)

lemma traverse_availability:
  "traverse (co\<lparr>llm_is_available := b\<rparr>) gs q k = traverse co gs q k"
  "traverse_streaming (co\<lparr>llm_is_available := b\<rparr>) gs q k = traverse_streaming co gs q k"
  by (simp_all add: traverse_def traverse_streaming_def extract_with_context_def extract_entities_def)

lemmas eval_defs =
  add_note_def link_note_def create_node_def create_edge_def Let_def extract_clean_def
  extract_entities_def merge_overlapping_def sort_entities_def link_to_similar_notes_def
  upsert_schema_type_def find_or_create_entity_def normalize_entity_text_def py_lower_def
  py_split_def py_isspace_def sql_lower_def sql_lower_char_def find_node_by_name_def
  type_mapping_def embeddings_add_node_def counter_add_def counter_get_def
  check_adaptations_def check_type_promotions_def Counter_def promotion_step_def
  get_schema_types_def get_all_nodes_def TYPE_PROMOTION_THRESHOLD_def decay_edges_def
  log_adaptation_def str_of_nat_def py_strip_def open_graph_service_def
  refresh_type_counts_def init_schema_def empty_database_def empty_metrics_def seed_types_def
  insert_or_ignore_schema_type_def span_def update_node_access_def SIMILARITY_THRESHOLD_def
  find_edge_def boost_edge_def

lemma story_first:
  "gs_collection (fst (add_note story_collaborators (open_graph_service empty_database []) trip_note 1)) =
     [(0, ''Trip'' @ [CHR 0x0A] @ ''Trip to Oslo'', [(''entity_type'', JStr ''note'')]),
      (1, ''Oslo'', [(''entity_type'', JStr ''place'')])]"
  "tbl_nodes (gs_db (fst (add_note story_collaborators (open_graph_service empty_database []) trip_note 1))) =
     [\<lparr>n_id = 0, n_name = ''Trip'', n_entity_type = ''note'', n_content = Some ''Trip to Oslo'',
       n_metadata = [(''tags'', JList [])], n_access_count = 0\<rparr>,
      \<lparr>n_id = 1, n_name = ''Oslo'', n_entity_type = ''place'', n_content = None,
       n_metadata = [(''original_label'', JStr ''location''), (''extraction_score'', JReal (9 / 10))],
       n_access_count = 0\<rparr>]"
  by (simp_all add: eval_defs story_collaborators_def trip_note_def)

lemma exposed_by_mono: "exposed_by es d e \<Longrightarrow> exposed_by (es @ es2) d e"
  by (auto simp: exposed_by_def list_ex_iff)

lemma dfe_mono:
  "discoveries_follow_edges es evs \<Longrightarrow> discoveries_follow_edges (es @ es2) evs"
  by (auto simp: discoveries_follow_edges_def intro: exposed_by_mono)

lemma dfe_append_plain:
  assumes "discoveries_follow_edges es evs" "\<not> is_discovery e"
  shows "discoveries_follow_edges es (evs @ [e])"
  unfolding discoveries_follow_edges_def
proof (intro allI impI)
  fix i assume i: "i < length (evs @ [e])" and d: "is_discovery ((evs @ [e]) ! i)"
  show "0 < i \<and> exposed_by es ((evs @ [e]) ! i) ((evs @ [e]) ! (i - 1))"
  proof (cases "i < length evs")
    case True
    with d have "is_discovery (evs ! i)" by (simp add: nth_append)
    with assms(1) True have "0 < i \<and> exposed_by es (evs ! i) (evs ! (i - 1))"
      by (simp add: discoveries_follow_edges_def)
    moreover from True have "i - 1 < length evs" by simp
    ultimately show ?thesis using True by (simp add: nth_append)
  next
    case False
    with i have "i = length evs" by simp
    with d assms(2) show ?thesis by (simp add: nth_append)
  qed
qed

lemma dfe_append_group:
  assumes "discoveries_follow_edges es evs" "\<not> is_discovery e" "exposed_by es d e"
  shows "discoveries_follow_edges es (evs @ [e, d])"
  unfolding discoveries_follow_edges_def
proof (intro allI impI)
  fix i assume i: "i < length (evs @ [e, d])" and dd: "is_discovery ((evs @ [e, d]) ! i)"
  consider "i < length evs" | "i = length evs" | "i = Suc (length evs)"
    using i by fastforce
  then show "0 < i \<and> exposed_by es ((evs @ [e, d]) ! i) ((evs @ [e, d]) ! (i - 1))"
  proof cases
    case 1
    with dd have "is_discovery (evs ! i)" by (simp add: nth_append)
    with assms(1) 1 have "0 < i \<and> exposed_by es (evs ! i) (evs ! (i - 1))"
      by (simp add: discoveries_follow_edges_def)
    moreover from 1 have "i - 1 < length evs" by simp
    ultimately show ?thesis using 1 by (simp add: nth_append)
  next
    case 2
    with dd assms(2) show ?thesis by (simp add: nth_append)
  next
    case 3
    with assms(3) show ?thesis by (simp add: nth_append)
  qed
qed

lemma edge_event_plain: "\<not> is_discovery (edge_event n i)"
  by (simp add: is_discovery_def edge_event_def)

lemma other_events_plain:
  "\<not> is_discovery (embedding_search_event n s)" "\<not> is_discovery (entity_match_event n)"
  "\<not> is_discovery llm_thinking_event" "\<not> is_discovery complete_event"
  by (simp_all add: is_discovery_def embedding_search_event_def entity_match_event_def
      llm_thinking_event_def complete_event_def)

lemma search_step_traced: "traced st \<Longrightarrow> traced (search_step_streaming st r)"
  by (auto simp: traced_def search_step_streaming_def other_events_plain
      intro: dfe_append_plain split: option.splits)

lemma match_entity_traced: "traced st \<Longrightarrow> traced (match_entity_streaming st ent)"
  by (auto simp: traced_def match_entity_streaming_def other_events_plain
      intro: dfe_append_plain split: option.splits)

lemma expand_edge_traced:
  assumes "traced st" "e_source_id ed = n_id nd \<or> e_target_id ed = n_id nd"
  shows "traced (expand_edge_streaming nd st ed)"
proof -
  let ?e = "edge_event (n_id nd) (e_id ed)"
  let ?d = "discovery_event (other_endpoint ed (n_id nd)) (e_weight ed * (7/10))"
  from assms(1) have m: "discoveries_follow_edges (tr_edges st @ [ed]) (tr_events st)"
    unfolding traced_def by (rule dfe_mono)
  have x: "exposed_by (tr_edges st @ [ed]) ?d ?e"
    using assms(2) by (simp add: exposed_by_def edge_event_def)
  from m have 1: "discoveries_follow_edges (tr_edges st @ [ed]) (tr_events st @ [?e])"
    by (rule dfe_append_plain) (rule edge_event_plain)
  from m edge_event_plain x
  have 2: "discoveries_follow_edges (tr_edges st @ [ed]) (tr_events st @ [?e, ?d])"
    by (rule dfe_append_group)
  from 1 2 show ?thesis
    by (simp add: traced_def expand_edge_streaming_def Let_def split: option.splits)
qed

lemma expand_edges_traced:
  "traced st \<Longrightarrow> list_all (\<lambda>ed. e_source_id ed = n_id nd \<or> e_target_id ed = n_id nd) es \<Longrightarrow>
   traced (foldl (expand_edge_streaming nd) st es)"
  by (induction es arbitrary: st) (simp_all add: expand_edge_traced)

lemma expand_node_traced: "traced st \<Longrightarrow> traced (expand_node_streaming st nd)"
  unfolding expand_node_streaming_def
  by (rule expand_edges_traced) (simp_all add: get_edges_for_node_def list_all_iff)

lemma foldl_traced:
  assumes "\<And>st x. traced st \<Longrightarrow> traced (f st x)"
  shows "traced st \<Longrightarrow> traced (foldl f st xs)"
  by (induction xs arbitrary: st) (simp_all add: assms)

lemma traverse_streaming_traced: "traced (traverse_streaming co gs q k)"
proof -
  have 0: "traced (start_traversal (gs_db gs))"
    by (simp add: traced_def start_traversal_def discoveries_follow_edges_def)
  let ?s1 = "foldl search_step_streaming (start_traversal (gs_db gs))
               (embeddings_search co (gs_collection gs) q k)"
  from 0 have "traced ?s1" by (rule foldl_traced [rotated]) (rule search_step_traced)
  then have 1: "traced (?s1\<lparr>tr_expanded_nodes := set (map n_id (tr_nodes ?s1))\<rparr>)"
    by (simp add: traced_def)
  let ?s1e = "?s1\<lparr>tr_expanded_nodes := set (map n_id (tr_nodes ?s1))\<rparr>"
  from 1 have 2: "traced (foldl expand_node_streaming ?s1e (take 5 (tr_nodes ?s1e)))"
    by (rule foldl_traced [rotated]) (rule expand_node_traced)
  from 2 have "traced (foldl match_entity_streaming
                  (foldl expand_node_streaming ?s1e (take 5 (tr_nodes ?s1e)))
                  (extract_with_context co q None (3/10)))"
    by (rule foldl_traced [rotated]) (rule match_entity_traced)
  then show ?thesis by (simp add: traverse_streaming_def Let_def)
qed

lemma phase_run_refl: "phase_run p st st"
  unfolding phase_run_def by (rule exI [of _ 0]) simp

lemma phase_run_trans: "phase_run p a b \<Longrightarrow> phase_run p b c \<Longrightarrow> phase_run p a c"
  unfolding phase_run_def
proof -
  assume "\<exists>k. map te_phase (tr_events b) = map te_phase (tr_events a) @ replicate k p"
    and "\<exists>k. map te_phase (tr_events c) = map te_phase (tr_events b) @ replicate k p"
  then obtain k1 k2 where
    "map te_phase (tr_events b) = map te_phase (tr_events a) @ replicate k1 p"
    "map te_phase (tr_events c) = map te_phase (tr_events b) @ replicate k2 p" by blast
  then have "map te_phase (tr_events c) = map te_phase (tr_events a) @ replicate (k1 + k2) p"
    by (simp add: replicate_add)
  then show "\<exists>k. map te_phase (tr_events c) = map te_phase (tr_events a) @ replicate k p" ..
qed

lemma foldl_phase_run:
  assumes "\<And>st x. phase_run p st (f st x)"
  shows "phase_run p st (foldl f st xs)"
proof (induction xs arbitrary: st)
  case Nil
  show ?case by (simp add: phase_run_refl)
next
  case (Cons x xs)
  from assms [of st x] Cons [of "f st x"] show ?case
    by (simp only: foldl_Cons) (rule phase_run_trans)
qed

lemma phase_run_one:
  "map te_phase (tr_events st') = map te_phase (tr_events st) @ [p] \<Longrightarrow> phase_run p st st'"
  unfolding phase_run_def by (rule exI [of _ 1]) simp

lemma phase_run_two:
  "map te_phase (tr_events st') = map te_phase (tr_events st) @ [p, p] \<Longrightarrow> phase_run p st st'"
  unfolding phase_run_def by (rule exI [of _ 2]) (simp add: numeral_2_eq_2)

lemma search_step_phase: "phase_run ''embedding_search'' st (search_step_streaming st r)"
proof (cases "get_node (tr_db st) (hit_id r)")
  case None
  then have "search_step_streaming st r = st" by (simp add: search_step_streaming_def)
  then show ?thesis by (simp only: phase_run_refl)
next
  case (Some nd)
  then have "map te_phase (tr_events (search_step_streaming st r)) =
             map te_phase (tr_events st) @ [''embedding_search'']"
    by (simp add: search_step_streaming_def embedding_search_event_def)
  then show ?thesis by (rule phase_run_one)
qed

lemma match_entity_phase: "phase_run ''entity_match'' st (match_entity_streaming st ent)"
proof (cases "find_node_by_name (tr_db st) (ent_text ent) None")
  case None
  then have "match_entity_streaming st ent = st" by (simp add: match_entity_streaming_def)
  then show ?thesis by (simp only: phase_run_refl)
next
  case (Some m)
  show ?thesis
  proof (cases "n_id m \<in> tr_expanded_nodes st")
    case True
    with Some have "match_entity_streaming st ent = st" by (simp add: match_entity_streaming_def)
    then show ?thesis by (simp only: phase_run_refl)
  next
    case False
    with Some have "map te_phase (tr_events (match_entity_streaming st ent)) =
               map te_phase (tr_events st) @ [''entity_match'']"
      by (simp add: match_entity_streaming_def entity_match_event_def)
    then show ?thesis by (rule phase_run_one)
  qed
qed

lemma expand_edge_phase: "phase_run ''edge_expansion'' st (expand_edge_streaming nd st ed)"
proof -
  let ?o = "other_endpoint ed (n_id nd)"
  let ?db = "boost_edge (tr_db st) (e_id ed) (1/10)"
  show ?thesis
  proof (cases "?o \<notin> tr_expanded_nodes st \<and> get_node ?db ?o \<noteq> None")
    case True
    then obtain other where "get_node ?db ?o = Some other" by auto
    with True have "map te_phase (tr_events (expand_edge_streaming nd st ed)) =
          map te_phase (tr_events st) @ [''edge_expansion'', ''edge_expansion'']"
      by (simp add: expand_edge_streaming_def Let_def edge_event_def discovery_event_def)
    then show ?thesis by (rule phase_run_two)
  next
    case False
    then have "map te_phase (tr_events (expand_edge_streaming nd st ed)) =
          map te_phase (tr_events st) @ [''edge_expansion'']"
      by (auto simp: expand_edge_streaming_def Let_def edge_event_def split: option.splits)
    then show ?thesis by (rule phase_run_one)
  qed
qed

lemma expand_node_phase: "phase_run ''edge_expansion'' st (expand_node_streaming st nd)"
  unfolding expand_node_streaming_def by (rule foldl_phase_run) (rule expand_edge_phase)

lemma traverse_streaming_phases:
  "\<exists>a b c. map te_phase (tr_events (traverse_streaming co gs q k)) =
     replicate a ''embedding_search'' @ replicate b ''edge_expansion'' @ replicate c ''entity_match''"
proof -
  let ?s0 = "start_traversal (gs_db gs)"
  let ?s1 = "foldl search_step_streaming ?s0 (embeddings_search co (gs_collection gs) q k)"
  let ?s1e = "?s1\<lparr>tr_expanded_nodes := set (map n_id (tr_nodes ?s1))\<rparr>"
  let ?s2 = "foldl expand_node_streaming ?s1e (take 5 (tr_nodes ?s1e))"
  let ?s3 = "foldl match_entity_streaming ?s2 (extract_with_context co q None (3/10))"
  have "phase_run ''embedding_search'' ?s0 ?s1"
    by (rule foldl_phase_run) (rule search_step_phase)
  then obtain a where a: "map te_phase (tr_events ?s1) = replicate a ''embedding_search''"
    by (auto simp: phase_run_def start_traversal_def)
  have "phase_run ''edge_expansion'' ?s1e ?s2"
    by (rule foldl_phase_run) (rule expand_node_phase)
  then obtain b where b: "map te_phase (tr_events ?s2) =
      replicate a ''embedding_search'' @ replicate b ''edge_expansion''"
    using a by (auto simp: phase_run_def)
  have "phase_run ''entity_match'' ?s2 ?s3"
    by (rule foldl_phase_run) (rule match_entity_phase)
  then obtain c where c: "map te_phase (tr_events ?s3) =
      replicate a ''embedding_search'' @ replicate b ''edge_expansion'' @ replicate c ''entity_match''"
    using b by (auto simp: phase_run_def)
  have "traverse_streaming co gs q k = ?s3" by (simp add: traverse_streaming_def Let_def)
  with c show ?thesis by (simp only:) blast
qed

lemma story_service_tables:
  "gs_collection story_service =
     [(0, ''Trip'' @ [CHR 0x0A] @ ''Trip to Oslo'', [(''entity_type'', JStr ''note'')]),
      (1, ''Oslo'', [(''entity_type'', JStr ''place'')]),
      (3, ''Call'' @ [CHR 0x0A] @ ''Alice called'', [(''entity_type'', JStr ''note'')]),
      (4, ''Alice'', [(''entity_type'', JStr ''person'')])]"
  "tbl_nodes (gs_db story_service) =
     [\<lparr>n_id = 0, n_name = ''Trip'', n_entity_type = ''note'', n_content = Some ''Trip to Oslo'',
       n_metadata = [(''tags'', JList [])], n_access_count = 0\<rparr>,
      \<lparr>n_id = 1, n_name = ''Oslo'', n_entity_type = ''place'', n_content = None,
       n_metadata = [(''original_label'', JStr ''location''), (''extraction_score'', JReal (9 / 10))],
       n_access_count = 0\<rparr>,
      \<lparr>n_id = 3, n_name = ''Call'', n_entity_type = ''note'', n_content = Some ''Alice called'',
       n_metadata = [(''tags'', JList [])], n_access_count = 0\<rparr>,
      \<lparr>n_id = 4, n_name = ''Alice'', n_entity_type = ''person'', n_content = None,
       n_metadata = [(''original_label'', JStr ''person''), (''extraction_score'', JReal (9 / 10))],
       n_access_count = 0\<rparr>]"
  "tbl_edges (gs_db story_service) =
     [\<lparr>e_id = 2, e_source_id = 0, e_target_id = 1, e_relation_type = ''mentions'',
       e_weight = 356409 / 400000, e_metadata = [(''extraction_score'', JReal (9 / 10))],
       e_traversal_count = 0\<rparr>,
      \<lparr>e_id = 5, e_source_id = 3, e_target_id = 4, e_relation_type = ''mentions'',
       e_weight = 1791 / 2000, e_metadata = [(''extraction_score'', JReal (9 / 10))],
       e_traversal_count = 0\<rparr>]"
  by (simp_all add: story_service_def eval_defs story_collaborators_def trip_note_def call_note_def)

lemma story_traversal:
  "tr_nodes (traverse_streaming story_collaborators story_service ''Did Alice meet Alice?'' 1) =
     [tbl_nodes (gs_db story_service) ! 0, tbl_nodes (gs_db story_service) ! 1,
      tbl_nodes (gs_db story_service) ! 3, tbl_nodes (gs_db story_service) ! 3]"
  "tr_traversed_path (traverse_streaming story_collaborators story_service ''Did Alice meet Alice?'' 1) =
     [0, 1, 4, 4]"
  "tr_edges (traverse_streaming story_collaborators story_service ''Did Alice meet Alice?'' 1) =
     [tbl_edges (gs_db story_service) ! 0]"
  "tr_events (traverse_streaming story_collaborators story_service ''Did Alice meet Alice?'' 1) =
     [embedding_search_event 0 (9/10), edge_event 0 2,
      discovery_event 1 (356409 / 400000 * (7/10)),
      entity_match_event 4, entity_match_event 4]"
  by (simp_all add: traverse_streaming_def Let_def story_service_tables story_collaborators_def
      start_traversal_def search_step_streaming_def expand_node_streaming_def
      expand_edge_streaming_def match_entity_streaming_def get_node_def update_node_access_def
      get_edges_for_node_def boost_edge_def other_endpoint_def find_node_by_name_def
      sql_lower_def sql_lower_char_def extract_with_context_def extract_entities_def
      DEFAULT_LABELS_def span_def)

lemma streaming_parts:
  "fst (snd (query_streaming co gs q use_llm k l)) = snd (query co gs q use_llm k l)"
  "qr_nodes (snd (query co gs q use_llm k l)) = tr_nodes (traverse_streaming co gs q k)"
  "qr_edges (snd (query co gs q use_llm k l)) = tr_edges (traverse_streaming co gs q k)"
  "qr_traversed_path (snd (query co gs q use_llm k l)) = tr_traversed_path (traverse_streaming co gs q k)"
  "qr_used_llm (snd (query co gs q use_llm k l)) =
     generation_wanted co use_llm (tr_nodes (traverse_streaming co gs q k))"
  "snd (snd (query_streaming co gs q use_llm k l)) =
     (if generation_wanted co use_llm (tr_nodes (traverse_streaming co gs q k))
      then tr_events (traverse_streaming co gs q k) @ [llm_thinking_event]
      else tr_events (traverse_streaming co gs q k)) @ [complete_event]"
  by (simp_all add: query_is_streaming_result query_streaming_traverse Let_def)

text \<open>
  C4. The phases of the messages a streaming query broadcasts are some number of
  \<open>embedding_search\<close>, then some number of \<open>edge_expansion\<close>, then some number of
  \<open>entity_match\<close>, then one \<open>llm_thinking\<close> exactly when generation was used, then one
  \<open>complete\<close>. Every discovery message (an \<open>edge_expansion\<close> message without an edge id)
  is not the first message, and the message just before it is the edge message of an edge of
  the result that is incident to that message's node and whose other endpoint is the
  discovered node; the discovery carries that edge's weight times 0.7.
\<close>

theorem streaming_event_order:
  "(\<exists>a b c. map te_phase (snd (snd (query_streaming co gs q use_llm k l))) =
      replicate a ''embedding_search'' @ replicate b ''edge_expansion'' @
      replicate c ''entity_match'' @
      (if qr_used_llm (fst (snd (query_streaming co gs q use_llm k l)))
       then [''llm_thinking''] else []) @ [''complete'']) \<and>
   discoveries_follow_edges (qr_edges (fst (snd (query_streaming co gs q use_llm k l))))
     (snd (snd (query_streaming co gs q use_llm k l)))"
proof -
  let ?t = "traverse_streaming co gs q k"
  let ?u = "generation_wanted co use_llm (tr_nodes ?t)"
  from traverse_streaming_phases [of co gs q k] obtain a b c where
    p: "map te_phase (tr_events ?t) =
        replicate a ''embedding_search'' @ replicate b ''edge_expansion'' @
        replicate c ''entity_match''" by blast
  have "map te_phase (snd (snd (query_streaming co gs q use_llm k l))) =
      replicate a ''embedding_search'' @ replicate b ''edge_expansion'' @
      replicate c ''entity_match'' @
      (if qr_used_llm (fst (snd (query_streaming co gs q use_llm k l)))
       then [''llm_thinking''] else []) @ [''complete'']"
    by (simp add: streaming_parts p llm_thinking_event_def complete_event_def)
  then have 1: "\<exists>a b c. map te_phase (snd (snd (query_streaming co gs q use_llm k l))) =
      replicate a ''embedding_search'' @ replicate b ''edge_expansion'' @
      replicate c ''entity_match'' @
      (if qr_used_llm (fst (snd (query_streaming co gs q use_llm k l)))
       then [''llm_thinking''] else []) @ [''complete'']"
    by (intro exI)
  have t: "discoveries_follow_edges (tr_edges ?t) (tr_events ?t)"
    using traverse_streaming_traced [of co gs q k] by (simp add: traced_def)
  then have "discoveries_follow_edges (tr_edges ?t) (tr_events ?t @ [llm_thinking_event])"
    by (rule dfe_append_plain) (rule other_events_plain)
  then have "discoveries_follow_edges (tr_edges ?t) ((tr_events ?t @ [llm_thinking_event]) @ [complete_event])"
    by (rule dfe_append_plain) (rule other_events_plain)
  moreover from t have "discoveries_follow_edges (tr_edges ?t) (tr_events ?t @ [complete_event])"
    by (rule dfe_append_plain) (rule other_events_plain)
  ultimately have 2: "discoveries_follow_edges
     (qr_edges (fst (snd (query_streaming co gs q use_llm k l))))
     (snd (snd (query_streaming co gs q use_llm k l)))"
    by (simp add: streaming_parts)
  from 1 2 show ?thesis by (rule conjI)
qed

lemma story_events:
  "snd (snd (query_streaming story_collaborators story_service ''Did Alice meet Alice?'' True 1 2)) =
     [embedding_search_event 0 (9/10), edge_event 0 2,
      discovery_event 1 (356409 / 400000 * (7/10)),
      entity_match_event 4, entity_match_event 4, complete_event]"
proof -
  have "\<not> llm_is_available story_collaborators" by (simp add: story_collaborators_def)
  then show ?thesis
    by (simp add: streaming_parts story_traversal generation_wanted_def)
qed

theorem streaming_event_order_witness:
  "map te_phase (snd (snd (query_streaming story_collaborators story_service
       ''Did Alice meet Alice?'' True 1 2))) =
     [''embedding_search'', ''edge_expansion'', ''edge_expansion'', ''entity_match'',
      ''entity_match'', ''complete''] \<and>
   is_discovery (snd (snd (query_streaming story_collaborators story_service
       ''Did Alice meet Alice?'' True 1 2)) ! 2) \<and>
   exposed_by (qr_edges (fst (snd (query_streaming story_collaborators story_service
       ''Did Alice meet Alice?'' True 1 2))))
     (snd (snd (query_streaming story_collaborators story_service ''Did Alice meet Alice?'' True 1 2)) ! 2)
     (snd (snd (query_streaming story_collaborators story_service ''Did Alice meet Alice?'' True 1 2)) ! 1)"
proof -
  let ?evs = "snd (snd (query_streaming story_collaborators story_service
       ''Did Alice meet Alice?'' True 1 2))"
  have d: "is_discovery (?evs ! 2)" "2 < length ?evs"
    by (simp_all add: story_events is_discovery_def discovery_event_def)
  have p: "map te_phase ?evs =
     [''embedding_search'', ''edge_expansion'', ''edge_expansion'', ''entity_match'',
      ''entity_match'', ''complete'']"
    by (simp add: story_events embedding_search_event_def edge_event_def discovery_event_def
        entity_match_event_def complete_event_def)
  from streaming_event_order [of story_collaborators story_service "''Did Alice meet Alice?''" True 1 2]
  have "discoveries_follow_edges
     (qr_edges (fst (snd (query_streaming story_collaborators story_service
       ''Did Alice meet Alice?'' True 1 2)))) ?evs"
    by (rule conjunct2)
  with d have "exposed_by (qr_edges (fst (snd (query_streaming story_collaborators story_service
       ''Did Alice meet Alice?'' True 1 2)))) (?evs ! 2) (?evs ! (2 - 1))"
    unfolding discoveries_follow_edges_def by blast
  with d(1) p show ?thesis by simp
qed

text \<open>
  C7. When the generation service reports that it is not available, \<open>query\<close> and
  \<open>query_streaming\<close> return \<open>used_llm = False\<close> and no response, whatever \<open>use_llm\<close>
  asks for, and the nodes, edges and traversed path of the result are the ones returned
  when the service is available. In general generation is used exactly when \<open>use_llm\<close> is
  set, the service is available and the result has a node, and the response is the
  service's answer in that case and absent otherwise.
\<close>

theorem generation_gated:
  "(\<not> llm_is_available co \<longrightarrow>
      \<not> qr_used_llm (snd (query co gs q use_llm k l)) \<and>
      qr_response (snd (query co gs q use_llm k l)) = None \<and>
      \<not> qr_used_llm (fst (snd (query_streaming co gs q use_llm k l))) \<and>
      qr_response (fst (snd (query_streaming co gs q use_llm k l))) = None) \<and>
   qr_nodes (snd (query (co\<lparr>llm_is_available := b\<rparr>) gs q use_llm k l)) =
     qr_nodes (snd (query co gs q use_llm k l)) \<and>
   qr_edges (snd (query (co\<lparr>llm_is_available := b\<rparr>) gs q use_llm k l)) =
     qr_edges (snd (query co gs q use_llm k l)) \<and>
   qr_traversed_path (snd (query (co\<lparr>llm_is_available := b\<rparr>) gs q use_llm k l)) =
     qr_traversed_path (snd (query co gs q use_llm k l)) \<and>
   qr_used_llm (snd (query co gs q use_llm k l)) =
     (use_llm \<and> llm_is_available co \<and> qr_nodes (snd (query co gs q use_llm k l)) \<noteq> []) \<and>
   qr_response (snd (query co gs q use_llm k l)) =
     (if qr_used_llm (snd (query co gs q use_llm k l))
      then Some (llm_generate_response co q
                   (context_nodes_of (qr_nodes (snd (query co gs q use_llm k l))))
                   (context_edges_of (tr_db (traverse co gs q k))
                      (qr_edges (snd (query co gs q use_llm k l)))))
      else None) \<and>
   fst (snd (query_streaming co gs q use_llm k l)) = snd (query co gs q use_llm k l)"
proof -
  have r: "qr_response (snd (query co gs q use_llm k l)) =
     (if qr_used_llm (snd (query co gs q use_llm k l))
      then Some (llm_generate_response co q
                   (context_nodes_of (qr_nodes (snd (query co gs q use_llm k l))))
                   (context_edges_of (tr_db (traverse co gs q k))
                      (qr_edges (snd (query co gs q use_llm k l)))))
      else None)"
    by (simp add: query_traverse Let_def)
  have u: "qr_used_llm (snd (query co gs q use_llm k l)) =
     (use_llm \<and> llm_is_available co \<and> qr_nodes (snd (query co gs q use_llm k l)) \<noteq> [])"
    by (simp add: query_traverse Let_def generation_wanted_def)
  have g: "qr_nodes (snd (query (co\<lparr>llm_is_available := b\<rparr>) gs q use_llm k l)) =
     qr_nodes (snd (query co gs q use_llm k l))"
    "qr_edges (snd (query (co\<lparr>llm_is_available := b\<rparr>) gs q use_llm k l)) =
     qr_edges (snd (query co gs q use_llm k l))"
    "qr_traversed_path (snd (query (co\<lparr>llm_is_available := b\<rparr>) gs q use_llm k l)) =
     qr_traversed_path (snd (query co gs q use_llm k l))"
    by (simp_all add: query_traverse Let_def traverse_availability)
  have s: "fst (snd (query_streaming co gs q use_llm k l)) = snd (query co gs q use_llm k l)"
    by (rule streaming_parts)
  have n: "\<not> llm_is_available co \<longrightarrow>
      \<not> qr_used_llm (snd (query co gs q use_llm k l)) \<and>
      qr_response (snd (query co gs q use_llm k l)) = None \<and>
      \<not> qr_used_llm (fst (snd (query_streaming co gs q use_llm k l))) \<and>
      qr_response (fst (snd (query_streaming co gs q use_llm k l))) = None"
    using u r by (simp add: s)
  show ?thesis using n g u r s by (intro conjI) assumption+
qed

theorem generation_gated_witness:
  "\<not> llm_is_available story_collaborators \<and>
   \<not> qr_used_llm (snd (query story_collaborators story_service ''Did Alice meet Alice?'' True 1 2)) \<and>
   qr_response (snd (query story_collaborators story_service ''Did Alice meet Alice?'' True 1 2)) = None \<and>
   qr_traversed_path (snd (query story_collaborators story_service ''Did Alice meet Alice?'' True 1 2)) =
     [0, 1, 4, 4] \<and>
   qr_traversed_path (snd (query (story_collaborators\<lparr>llm_is_available := True\<rparr>) story_service
      ''Did Alice meet Alice?'' True 1 2)) = [0, 1, 4, 4] \<and>
   qr_used_llm (snd (query (story_collaborators\<lparr>llm_is_available := True\<rparr>) story_service
      ''Did Alice meet Alice?'' True 1 2))"
proof -
  have a: "\<not> llm_is_available story_collaborators" by (simp add: story_collaborators_def)
  have p: "qr_traversed_path (snd (query story_collaborators story_service ''Did Alice meet Alice?'' True 1 2)) =
     [0, 1, 4, 4]"
    by (simp add: streaming_parts story_traversal)
  have n: "qr_nodes (snd (query story_collaborators story_service ''Did Alice meet Alice?'' True 1 2)) \<noteq> []"
    by (simp add: streaming_parts story_traversal)
  from generation_gated [of story_collaborators story_service "''Did Alice meet Alice?''" True 1 2 True]
       generation_gated [of "story_collaborators\<lparr>llm_is_available := True\<rparr>" story_service
          "''Did Alice meet Alice?''" True 1 2 True]
       a p n
  show ?thesis by simp
qed

text \<open>
  C10, at a failing input. The store holds the notes Trip (mentioning Oslo) and Call
  (mentioning Alice); the query text names Alice twice and the vector search returns the
  note Trip. Phase 3 looks each extracted entity up by name and tests the node's id against
  \<open>expanded_nodes\<close>, but never adds the id to that set: the node Alice (id 4) is added
  to the result and the traversal path twice, and the streaming query broadcasts two
  \<open>entity_match\<close> messages for it (each with score 0.95).
\<close>

theorem entity_match_adds_node_twice:
  "map n_id (qr_nodes (snd (query story_collaborators story_service ''Did Alice meet Alice?'' True 1 2))) =
     [0, 1, 4, 4] \<and>
   qr_traversed_path (snd (query story_collaborators story_service ''Did Alice meet Alice?'' True 1 2)) =
     [0, 1, 4, 4] \<and>
   map n_id (qr_nodes (fst (snd (query_streaming story_collaborators story_service
      ''Did Alice meet Alice?'' True 1 2)))) = [0, 1, 4, 4] \<and>
   snd (snd (query_streaming story_collaborators story_service ''Did Alice meet Alice?'' True 1 2)) =
     [embedding_search_event 0 (9/10), edge_event 0 2,
      discovery_event 1 (356409 / 400000 * (7/10)),
      entity_match_event 4, entity_match_event 4, complete_event] \<and>
   te_score (entity_match_event 4) = Some (95/100)"
  by (simp add: story_events streaming_parts(1-4) story_traversal story_service_tables
      entity_match_event_def)

section \<open>Ingesting a note twice\<close>

text \<open>
  C5, at a failing input. The same note is ingested twice. Each ingestion creates a note
  node, as the claim says. The entity ``New  York'' is looked up under its normalized name
  ``new york'', but the node was stored under the text as extracted, whose lower-cased form
  still has two spaces: the lookup finds nothing and a second entity node is created, so
  two entity nodes share one normalized name. For a name that normalization changes only
  in case (Oslo) the second ingestion finds the node and bumps its access count.
\<close>

theorem same_note_twice_duplicates_entity:
  "map (\<lambda>n. (n_id n, n_name n, n_entity_type n)) (tbl_nodes (gs_db york_twice)) =
     [(0, ''Visit'', ''note''), (1, ''New  York'', ''place''),
      (3, ''Visit'', ''note''), (4, ''New  York'', ''place'')] \<and>
   normalize_entity_text ''New  York'' = ''new york'' \<and>
   map (\<lambda>n. (n_id n, n_name n, n_entity_type n, n_access_count n)) (tbl_nodes (gs_db trip_twice)) =
     [(0, ''Trip'', ''note'', 0), (1, ''Oslo'', ''place'', 1), (3, ''Trip'', ''note'', 0)]"
proof -
  have a: "map (\<lambda>n. (n_id n, n_name n, n_entity_type n)) (tbl_nodes (gs_db york_twice)) =
     [(0, ''Visit'', ''note''), (1, ''New  York'', ''place''),
      (3, ''Visit'', ''note''), (4, ''New  York'', ''place'')]"
    by (simp add: york_twice_def eval_defs york_collaborators_def york_note_def)
  have b: "normalize_entity_text ''New  York'' = ''new york''"
    by code_simp
  have c: "map (\<lambda>n. (n_id n, n_name n, n_entity_type n, n_access_count n)) (tbl_nodes (gs_db trip_twice)) =
     [(0, ''Trip'', ''note'', 0), (1, ''Oslo'', ''place'', 1), (3, ''Trip'', ''note'', 0)]"
    by (simp add: trip_twice_def eval_defs story_collaborators_def trip_note_def)
  from a b c show ?thesis by (intro conjI)
qed

end
